theory Spec2Isabelle
  imports Complex_Main "HOL-Library.AList" "HOL-Library.Char_ord" "HOL-Library.List_Lexorder"
    "HOL-Library.Multiset"
begin

section \<open>The catalog\<close>

text \<open>
  The model follows \<^verbatim>\<open>src/thisonewebsite/src/App.tsx\<close>. React state is a record that
  every handler takes and returns updated; a handler sees the state of the render it was
  created in, so two calls "in a row" are two calls in two successive renders. Strings are
  lists of code units below 256; the dash in the third video's description is written as
  a hyphen.
\<close>

datatype TabKey = trending | your

datatype VideoCategory = TRENDING | YOUR

record Video =
  vid :: string
  title :: string
  description :: string
  url :: string
  category :: VideoCategory

definition ALL_VIDEOS :: "Video list" where
  "ALL_VIDEOS =
    [\<lparr>vid = ''wowfinalfinal1'', title = ''Epic Wow Final 1'',
      description = ''Kicking things off with your first wowfinalfinal masterpiece.'',
      url = ''https://mystorageaccount2306.blob.core.windows.net/videos/wowfinalfinal1.mp4'',
      category = TRENDING\<rparr>,
     \<lparr>vid = ''wowfinalfinal2'', title = ''Epic Wow Final 2'',
      description = ''The sequel that absolutely no one is ready for.'',
      url = ''https://mystorageaccount2306.blob.core.windows.net/videos/wowfinalfinal2.mp4'',
      category = TRENDING\<rparr>,
     \<lparr>vid = ''wowfinalfinal3'', title = ''Your Wow Final 3'',
      description = ''Uploaded by you - flexing those video skills.'',
      url = ''https://mystorageaccount2306.blob.core.windows.net/videos/wowfinalfinal3.mp4'',
      category = YOUR\<rparr>,
     \<lparr>vid = ''wowfinalfinal4'', title = ''Your Wow Final 4'',
      description = ''Another banger in your personal collection.'',
      url = ''https://mystorageaccount2306.blob.core.windows.net/videos/wowfinalfinal4.mp4'',
      category = YOUR\<rparr>]"

text \<open>
  The filter that the clamping effect, \<^verbatim>\<open>cycleVideo\<close> and the render all repeat:
  \<^verbatim>\<open>ALL_VIDEOS.filter(v => activeTab === 'trending' ? v.category === 'TRENDING'
  : v.category === 'YOUR')\<close>. The catalog is a parameter, so that lists of any length,
  the empty one included, can be talked about; the application runs it on \<^term>\<open>ALL_VIDEOS\<close>.
\<close>

definition filtered :: "Video list \<Rightarrow> TabKey \<Rightarrow> Video list" where
  "filtered catalog tab =
     filter (\<lambda>v. if tab = trending then category v = TRENDING else category v = YOUR) catalog"

section \<open>Navigation\<close>

text \<open>
  A JavaScript number that is an integer or NaN: \<open>None\<close> is NaN. The remainder
  operator \<^verbatim>\<open>%\<close> takes the sign of the dividend and is NaN on a zero divisor.
\<close>

type_synonym number = "int option"

definition js_rem :: "int \<Rightarrow> int \<Rightarrow> number" where
  "js_rem a b = (if b = 0 then None else Some (sgn a * (\<bar>a\<bar> mod \<bar>b\<bar>)))"

text \<open>\<^verbatim>\<open>list.length || 1\<close>: zero is falsy.\<close>

definition length_or_1 :: "'a list \<Rightarrow> int" where
  "length_or_1 xs = (if int (length xs) = 0 then 1 else int (length xs))"

text \<open>
  The updater \<^verbatim>\<open>cycleVideo\<close> passes to \<^verbatim>\<open>setCurrentIndex\<close>:
  \<^verbatim>\<open>const len = list.length || 1; const next = (prev + direction + len) % len\<close>.
\<close>

definition cycle_next :: "Video list \<Rightarrow> TabKey \<Rightarrow> number \<Rightarrow> int \<Rightarrow> number" where
  "cycle_next catalog tab prev direction =
     (let len = length_or_1 (filtered catalog tab)
      in case prev of None \<Rightarrow> None | Some p \<Rightarrow> js_rem (p + direction + len) len)"

record nav =
  activeTab :: TabKey
  currentIndex :: number

definition nav_init :: nav where
  "nav_init = \<lparr>activeTab = trending, currentIndex = Some 0\<rparr>"

definition setActiveTab :: "TabKey \<Rightarrow> nav \<Rightarrow> nav" where
  "setActiveTab t s = s\<lparr>activeTab := t\<rparr>"

definition cycleVideo :: "Video list \<Rightarrow> int \<Rightarrow> nav \<Rightarrow> nav" where
  "cycleVideo catalog direction s =
     s\<lparr>currentIndex := cycle_next catalog (activeTab s) (currentIndex s) direction\<rparr>"

text \<open>
  The effect on \<^verbatim>\<open>[activeTab, currentIndex]\<close>:
  \<^verbatim>\<open>if (currentIndex >= list.length) setCurrentIndex(0)\<close>. A comparison with NaN is false.
\<close>

definition clamp_effect :: "Video list \<Rightarrow> nav \<Rightarrow> nav" where
  "clamp_effect catalog s =
     (case currentIndex s of
        None \<Rightarrow> s
      | Some i \<Rightarrow> if i \<ge> int (length (filtered catalog (activeTab s)))
                  then s\<lparr>currentIndex := Some 0\<rparr> else s)"

text \<open>
  \<^verbatim>\<open>handleWheel\<close>: small movements are ignored, a downward one on "trending" goes to
  "your", an upward one on "your" goes to "trending".
\<close>

definition handleWheel :: "real \<Rightarrow> nav \<Rightarrow> nav" where
  "handleWheel deltaY s =
     (if \<bar>deltaY\<bar> < 30 then s
      else if deltaY > 0 \<and> activeTab s = trending then setActiveTab your s
      else if deltaY < 0 \<and> activeTab s = your then setActiveTab trending s
      else s)"

text \<open>
  \<^verbatim>\<open>handleTouchEnd\<close>, for a touch whose start was recorded: \<open>dx\<close> and \<open>dy\<close> are the
  displacements between start and end.
\<close>

definition handleTouchEnd :: "Video list \<Rightarrow> real \<Rightarrow> real \<Rightarrow> nav \<Rightarrow> nav" where
  "handleTouchEnd catalog dx dy s =
     (let absDx = \<bar>dx\<bar>; absDy = \<bar>dy\<bar>
      in if absDy > absDx \<and> absDy > 40 then
           (if dy > 0 \<and> activeTab s = your then setActiveTab trending s
            else if dy < 0 \<and> activeTab s = trending then setActiveTab your s
            else s)
         else if absDx > 40 then
           (if dx < 0 then cycleVideo catalog 1 s else cycleVideo catalog (- 1) s)
         else s)"

text \<open>
  \<^verbatim>\<open>handleMediaClick\<close> of the video card: the left half of the surface goes back, the
  rest goes forward.
\<close>

definition handleMediaClick :: "Video list \<Rightarrow> real \<Rightarrow> real \<Rightarrow> nav \<Rightarrow> nav" where
  "handleMediaClick catalog clickX width s =
     (if clickX < width / 2 then cycleVideo catalog (- 1) s else cycleVideo catalog 1 s)"

datatype nav_event =
    TabClick TabKey
  | Wheel real
  | TouchEnd real real
  | MediaClick real real

fun nav_handle :: "Video list \<Rightarrow> nav_event \<Rightarrow> nav \<Rightarrow> nav" where
  "nav_handle catalog (TabClick t) s = setActiveTab t s"
| "nav_handle catalog (Wheel deltaY) s = handleWheel deltaY s"
| "nav_handle catalog (TouchEnd dx dy) s = handleTouchEnd catalog dx dy s"
| "nav_handle catalog (MediaClick clickX width) s = handleMediaClick catalog clickX width s"

text \<open>
  One step of the navigation: the handler's state update, then the clamping effect of the
  render that follows. The states between two events are the ones after the effect.
\<close>

definition nav_step :: "Video list \<Rightarrow> nav_event \<Rightarrow> nav \<Rightarrow> nav" where
  "nav_step catalog e s = clamp_effect catalog (nav_handle catalog e s)"

inductive nav_reachable :: "Video list \<Rightarrow> nav \<Rightarrow> bool" for catalog :: "Video list" where
  mount: "nav_reachable catalog (clamp_effect catalog nav_init)"
| step: "nav_reachable catalog s \<Longrightarrow> nav_reachable catalog (nav_step catalog e s)"

text \<open>
  \<^verbatim>\<open>array[i]\<close> for a number \<open>i\<close>: \<^verbatim>\<open>undefined\<close> (here \<open>None\<close>) outside the array and
  on NaN.
\<close>

definition js_index :: "'a list \<Rightarrow> number \<Rightarrow> 'a option" where
  "js_index xs n =
     (case n of None \<Rightarrow> None
      | Some i \<Rightarrow> if 0 \<le> i \<and> i < int (length xs) then Some (xs ! nat i) else None)"

text \<open>
  \<^verbatim>\<open>const currentVideo = currentList[currentIndex] ?? currentList[0] ?? null\<close>; the
  viewer renders a card only for a non-null \<^verbatim>\<open>currentVideo\<close>.
\<close>

definition currentVideo :: "Video list \<Rightarrow> nav \<Rightarrow> Video option" where
  "currentVideo catalog s =
     (let currentList = filtered catalog (activeTab s)
      in case js_index currentList (currentIndex s) of
           Some v \<Rightarrow> Some v
         | None \<Rightarrow> js_index currentList (Some 0))"

section \<open>Interaction state\<close>

record Comment =
  cid :: string
  videoId :: string
  author :: string
  ctext :: string
  createdAt :: string

record CurrentUser =
  uid :: string
  email :: string
  username :: string

text \<open>
  The state of \<^verbatim>\<open>App\<close> that the like, comment and avatar handlers read and write.
  A \<^verbatim>\<open>Record<string, T>\<close> is a map from its own keys; a missing key reads
  \<^verbatim>\<open>undefined\<close> (a name that \<^verbatim>\<open>Object.prototype\<close> defines, such as
  \<^verbatim>\<open>constructor\<close>, reads as the inherited value in the source; such keys are not
  told apart here). Like counts are JavaScript numbers that only ever hold integers here.
\<close>

record app =
  currentUser :: "CurrentUser option"
  likes :: "string \<rightharpoonup> int"
  userLikes :: "string \<rightharpoonup> string list"
  comments :: "Comment list"
  avatars :: "string \<rightharpoonup> string"
  authError :: "string option"
  authSuccess :: "string option"

definition app_init :: app where
  "app_init = \<lparr>currentUser = None, likes = Map.empty, userLikes = Map.empty, comments = [],
     avatars = Map.empty, authError = None, authSuccess = None\<rparr>"

text \<open>\<^verbatim>\<open>userLikes[username] ?? []\<close>\<close>

definition likedList :: "app \<Rightarrow> string \<Rightarrow> string list" where
  "likedList s name = (case userLikes s name of None \<Rightarrow> [] | Some l \<Rightarrow> l)"

text \<open>\<^verbatim>\<open>const likesForVideo = (videoId) => likes[videoId] ?? 0\<close>\<close>

definition likesForVideo :: "app \<Rightarrow> string \<Rightarrow> int" where
  "likesForVideo s v = (case likes s v of None \<Rightarrow> 0 | Some c \<Rightarrow> c)"

definition toggleLike :: "string \<Rightarrow> app \<Rightarrow> app" where
  "toggleLike v s =
     (case currentUser s of
        None \<Rightarrow>
          s\<lparr>authError := Some ''You need to be logged in to like videos.'', authSuccess := None\<rparr>
      | Some u \<Rightarrow>
          (let name = username u;
               existingForUser = likedList s name;
               hasLiked = v \<in> set existingForUser;
               newUserLikes = (userLikes s)(name \<mapsto>
                 (if hasLiked then filter (\<lambda>i. i \<noteq> v) existingForUser
                  else existingForUser @ [v]));
               currentCount = likesForVideo s v;
               newLikes = (likes s)(v \<mapsto>
                 (if hasLiked then max 0 (currentCount - 1) else currentCount + 1))
           in s\<lparr>userLikes := newUserLikes, likes := newLikes\<rparr>))"

definition userHasLiked :: "app \<Rightarrow> string \<Rightarrow> bool" where
  "userHasLiked s v =
     (case currentUser s of None \<Rightarrow> False | Some u \<Rightarrow> v \<in> set (likedList s (username u)))"

definition totalLikesByUser :: "app \<Rightarrow> string \<Rightarrow> nat" where
  "totalLikesByUser s name = length (likedList s name)"

definition totalCommentsByUser :: "app \<Rightarrow> string \<Rightarrow> nat" where
  "totalCommentsByUser s name = length (filter (\<lambda>c. author c = name) (comments s))"

text \<open>
  \<^verbatim>\<open>String.prototype.trim\<close> strips white space and line terminators from both ends.
  A \<^typ>\<open>char\<close> is a code unit below 256; of those, the white space is tab, line feed,
  vertical tab, form feed, carriage return, space and the no-break space.
\<close>

definition js_whitespace :: "char \<Rightarrow> bool" where
  "js_whitespace c = ((of_char c :: nat) \<in> {9, 10, 11, 12, 13, 32, 160})"

definition trim :: "string \<Rightarrow> string" where
  "trim t = rev (dropWhile js_whitespace (rev (dropWhile js_whitespace t)))"

text \<open>
  \<^verbatim>\<open>handleAddComment\<close>. The clock is read twice: \<open>now_ms\<close> is the decimal text of
  \<^verbatim>\<open>Date.now()\<close> in the comment's id, \<open>now_iso\<close> is \<^verbatim>\<open>new Date().toISOString()\<close>.
\<close>

definition handleAddComment :: "string \<Rightarrow> string \<Rightarrow> string \<Rightarrow> string \<Rightarrow> app \<Rightarrow> app" where
  "handleAddComment v txt now_ms now_iso s =
     (case currentUser s of
        None \<Rightarrow>
          s\<lparr>authError := Some ''You need to be logged in to comment.'', authSuccess := None\<rparr>
      | Some u \<Rightarrow>
          (let trimmed = trim txt
           in if trimmed = [] then s
              else
                (let newComment = \<lparr>cid = v @ ''-'' @ now_ms, videoId = v, author = username u,
                                    ctext = trimmed, createdAt = now_iso\<rparr>
                 in s\<lparr>comments := comments s @ [newComment]\<rparr>)))"

text \<open>
  \<^verbatim>\<open>handleAvatarChange\<close>, once the chosen file has been read into \<open>dataUrl\<close>.
\<close>

definition handleAvatarChange :: "string \<Rightarrow> app \<Rightarrow> app" where
  "handleAvatarChange dataUrl s =
     (case currentUser s of
        None \<Rightarrow> s
      | Some u \<Rightarrow> s\<lparr>avatars := (avatars s)(uid u \<mapsto> dataUrl)\<rparr>)"

section \<open>Presenting comments\<close>

text \<open>
  The comparator of \<^verbatim>\<open>commentsForVideo\<close>:
  \<^verbatim>\<open>(a, b) => (a.createdAt > b.createdAt ? 1 : -1)\<close>. Strings compare by code unit,
  lexicographically.
\<close>

definition compareCreatedAt :: "Comment \<Rightarrow> Comment \<Rightarrow> int" where
  "compareCreatedAt a b = (if createdAt a > createdAt b then 1 else - 1)"

text \<open>
  \<^verbatim>\<open>comments.filter(c => c.videoId === videoId).sort(compare)\<close>. What
  \<^verbatim>\<open>Array.prototype.sort\<close> does with a comparator is the engine's business, so the
  engine's sort is a parameter.
\<close>

definition commentsForVideo ::
  "((Comment \<Rightarrow> Comment \<Rightarrow> int) \<Rightarrow> Comment list \<Rightarrow> Comment list) \<Rightarrow> Comment list \<Rightarrow> string \<Rightarrow> Comment list"
where
  "commentsForVideo engine_sort cs v =
     engine_sort compareCreatedAt (filter (\<lambda>c. videoId c = v) cs)"

text \<open>
  One engine: V8 sorts an array of fewer than 64 elements by finding the run its first
  elements form (descending when the comparator puts the second element before the first;
  a descending run is reversed) and inserting every later element by binary search.
\<close>

fun count_run :: "('a \<Rightarrow> 'a \<Rightarrow> int) \<Rightarrow> bool \<Rightarrow> 'a \<Rightarrow> 'a list \<Rightarrow> nat" where
  "count_run cmp descending previous [] = 0"
| "count_run cmp descending previous (x # xs) =
     (let order = cmp x previous
      in if (if descending then order \<ge> 0 else order < 0) then 0
         else Suc (count_run cmp descending x xs))"

fun count_and_make_run :: "('a \<Rightarrow> 'a \<Rightarrow> int) \<Rightarrow> 'a list \<Rightarrow> 'a list \<times> 'a list" where
  "count_and_make_run cmp [] = ([], [])"
| "count_and_make_run cmp [x] = ([x], [])"
| "count_and_make_run cmp (x0 # x1 # rest) =
     (let descending = cmp x1 x0 < 0;
          n = 2 + count_run cmp descending x1 rest;
          run = take n (x0 # x1 # rest)
      in (if descending then rev run else run, drop n (x0 # x1 # rest)))"

function binary_search :: "('a \<Rightarrow> 'a \<Rightarrow> int) \<Rightarrow> 'a \<Rightarrow> 'a list \<Rightarrow> nat \<Rightarrow> nat \<Rightarrow> nat" where
  "binary_search cmp pivot ys left right =
     (if left < right then
        (let mid = left + (right - left) div 2
         in if cmp pivot (ys ! mid) < 0 then binary_search cmp pivot ys left mid
            else binary_search cmp pivot ys (mid + 1) right)
      else left)"
  by pat_completeness auto
termination
  by (relation "measure (\<lambda>(cmp, pivot, ys, left, right). right - left)") auto

declare binary_search.simps [simp del]

definition binary_insert :: "('a \<Rightarrow> 'a \<Rightarrow> int) \<Rightarrow> 'a list \<Rightarrow> 'a \<Rightarrow> 'a list" where
  "binary_insert cmp ys pivot =
     (let k = binary_search cmp pivot ys 0 (length ys) in take k ys @ pivot # drop k ys)"

definition v8_sort_short :: "('a \<Rightarrow> 'a \<Rightarrow> int) \<Rightarrow> 'a list \<Rightarrow> 'a list" where
  "v8_sort_short cmp xs =
     (case count_and_make_run cmp xs of (run, rest) \<Rightarrow> foldl (binary_insert cmp) run rest)"

text \<open>Two comments on one video, written within the same millisecond.\<close>

definition tie_first :: Comment where
  "tie_first = \<lparr>cid = ''wowfinalfinal1-1700000000000'', videoId = ''wowfinalfinal1'',
     author = ''alice'', ctext = ''first'', createdAt = ''2023-11-14T22:13:20.000Z''\<rparr>"

definition tie_second :: Comment where
  "tie_second = \<lparr>cid = ''wowfinalfinal1-1700000000000'', videoId = ''wowfinalfinal1'',
     author = ''alice'', ctext = ''second'', createdAt = ''2023-11-14T22:13:20.000Z''\<rparr>"

section \<open>Deriving the username\<close>

text \<open>\<^verbatim>\<open>email.split('@')[0]\<close>: what stands before the first \<^verbatim>\<open>@\<close>.\<close>

definition split_at_head :: "string \<Rightarrow> string" where
  "split_at_head e = takeWhile (\<lambda>c. c \<noteq> CHR ''@'') e"

text \<open>
  \<^verbatim>\<open>deriveUsername(email: string | null)\<close>: \<^verbatim>\<open>null\<close> and the empty string are falsy.
\<close>

definition deriveUsername :: "string option \<Rightarrow> string" where
  "deriveUsername e =
     (case e of
        None \<Rightarrow> ''mystery-creature''
      | Some m \<Rightarrow>
          if m = [] then ''mystery-creature''
          else (let name = split_at_head m in if name = [] then m else name))"

text \<open>
  The user of a session of the identity service: an id, an optional email and an optional
  metadata object that may hold a \<^verbatim>\<open>username\<close>.
\<close>

record SessionUser =
  user_id :: string
  user_email :: "string option"
  user_metadata :: "(string \<rightharpoonup> string) option"

text \<open>
  \<^verbatim>\<open>(u.user_metadata && (u.user_metadata.username as string)) ||
  deriveUsername(u.email ?? null)\<close>, as all four places that build a \<^verbatim>\<open>CurrentUser\<close>
  have it.
\<close>

definition session_username :: "SessionUser \<Rightarrow> string" where
  "session_username u =
     (case user_metadata u of
        None \<Rightarrow> deriveUsername (user_email u)
      | Some md \<Rightarrow>
          (case md ''username'' of
             None \<Rightarrow> deriveUsername (user_email u)
           | Some n \<Rightarrow> if n = [] then deriveUsername (user_email u) else n))"

definition toCurrentUser :: "SessionUser \<Rightarrow> CurrentUser" where
  "toCurrentUser u =
     \<lparr>uid = user_id u,
      email = (case user_email u of None \<Rightarrow> [] | Some e \<Rightarrow> e),
      username = session_username u\<rparr>"

text \<open>The handler given to \<^verbatim>\<open>onAuthStateChange\<close>.\<close>

definition onAuthStateChange :: "SessionUser option \<Rightarrow> app \<Rightarrow> app" where
  "onAuthStateChange session_user s =
     (case session_user of
        Some u \<Rightarrow> s\<lparr>currentUser := Some (toCurrentUser u)\<rparr>
      | None \<Rightarrow> s\<lparr>currentUser := None\<rparr>)"

definition handleLogout :: "app \<Rightarrow> app" where
  "handleLogout s = s\<lparr>currentUser := None, authSuccess := Some ''You have been logged out.''\<rparr>"

datatype auth_mode = login | signup

text \<open>What the identity service answers: an error with its message, or the data's user.\<close>

datatype auth_response = AuthError string | AuthData "SessionUser option"

text \<open>
  \<^verbatim>\<open>handleAuthSubmit\<close>, with the answer of the identity service as an argument; of the
  state it writes \<^verbatim>\<open>currentUser\<close>, \<^verbatim>\<open>authError\<close> and \<^verbatim>\<open>authSuccess\<close> (the
  form's own fields are left out).
\<close>

definition handleAuthSubmit :: "auth_mode \<Rightarrow> string \<Rightarrow> string \<Rightarrow> auth_response \<Rightarrow> app \<Rightarrow> app" where
  "handleAuthSubmit mode emailInput passwordInput response s =
     (let s0 = s\<lparr>authError := None, authSuccess := None\<rparr>;
          trimmedEmail = trim emailInput;
          trimmedPass = trim passwordInput
      in if trimmedEmail = [] \<or> trimmedPass = [] then
           s0\<lparr>authError := Some ''Enter both an email and password.''\<rparr>
         else
           (case response of
              AuthError message \<Rightarrow> s0\<lparr>authError := Some message\<rparr>
            | AuthData None \<Rightarrow>
                if mode = signup then
                  s0\<lparr>authSuccess :=
                    Some ''Sign-up request sent. Check your email if confirmation is required.''\<rparr>
                else s0
            | AuthData (Some u) \<Rightarrow>
                s0\<lparr>currentUser := Some (toCurrentUser u),
                   authSuccess := Some
                     (if mode = signup then
                        ''Account created. If email confirmation is enabled, please confirm before logging in from a new device.''
                      else ''Welcome back! You are now signed in.'')\<rparr>))"

section \<open>The application's transitions\<close>

datatype app_event =
    AuthStateChange "SessionUser option"
  | AuthSubmit auth_mode string string auth_response
  | Logout
  | ToggleLike string
  | AddComment string string string string
  | AvatarChange string

fun app_step :: "app_event \<Rightarrow> app \<Rightarrow> app" where
  "app_step (AuthStateChange u) s = onAuthStateChange u s"
| "app_step (AuthSubmit mode e p r) s = handleAuthSubmit mode e p r s"
| "app_step Logout s = handleLogout s"
| "app_step (ToggleLike v) s = toggleLike v s"
| "app_step (AddComment v txt now_ms now_iso) s = handleAddComment v txt now_ms now_iso s"
| "app_step (AvatarChange dataUrl) s = handleAvatarChange dataUrl s"

text \<open>The usernames whose like list holds the video.\<close>

definition likers :: "app \<Rightarrow> string \<Rightarrow> string set" where
  "likers s v = {name. v \<in> set (likedList s name)}"

text \<open>
  The invariant of the like counts: finitely many usernames have a like list (the object
  has finitely many keys), and every video's count is the number of its likers.
\<close>

definition likes_inv :: "app \<Rightarrow> bool" where
  "likes_inv s = (finite (dom (userLikes s)) \<and> (\<forall>v. likesForVideo s v = int (card (likers s v))))"

section \<open>JSON\<close>

text \<open>
  \<^verbatim>\<open>JSON.stringify\<close> and \<^verbatim>\<open>JSON.parse\<close> are functions of the platform. They are
  modelled here on the values the four persisted fields hold: objects, arrays, strings and
  integers (with \<^verbatim>\<open>null\<close>, \<^verbatim>\<open>true\<close> and \<^verbatim>\<open>false\<close> for the grammar's sake).
  An object is the list of its members in their order.
\<close>

datatype json_value = JNull | JBool bool | JNumber int | JString string | JArray "json_value list"
  | JObject "(string \<times> json_value) list"

subsection \<open>Writing\<close>

text \<open>
  \<^verbatim>\<open>JSON.stringify\<close> without indentation. An integer is written in decimal (the platform
  changes to the exponent form for numbers of twenty-two digits and more; the counts here are far below). A string
  is quoted as \<^verbatim>\<open>QuoteJSONString\<close> does: the two-character escapes for backspace, tab,
  line feed, form feed, carriage return, the double quote and the backslash, \<^verbatim>\<open>\u00XX\<close>
  with lower-case digits for the other code units below 32, every other code unit as it is.
\<close>

definition digit_char :: "nat \<Rightarrow> char" where
  "digit_char d = char_of (48 + d)"

fun digits :: "nat \<Rightarrow> string" where
  "digits n = (if n < 10 then [digit_char n] else digits (n div 10) @ [digit_char (n mod 10)])"

declare digits.simps [simp del]

definition number_text :: "int \<Rightarrow> string" where
  "number_text i = (if i < 0 then CHR ''-'' # digits (nat (- i)) else digits (nat i))"

definition hex_char :: "nat \<Rightarrow> char" where
  "hex_char d = (if d < 10 then char_of (48 + d) else char_of (87 + d))"

definition quote_char :: "char \<Rightarrow> string" where
  "quote_char c =
     (if c = CHR 0x08 then [CHR 0x5C, CHR ''b'']
      else if c = CHR 0x09 then [CHR 0x5C, CHR ''t'']
      else if c = CHR 0x0A then [CHR 0x5C, CHR ''n'']
      else if c = CHR 0x0C then [CHR 0x5C, CHR ''f'']
      else if c = CHR 0x0D then [CHR 0x5C, CHR ''r'']
      else if c = CHR 0x22 then [CHR 0x5C, CHR 0x22]
      else if c = CHR 0x5C then [CHR 0x5C, CHR 0x5C]
      else if (of_char c :: nat) < 32 then
        [CHR 0x5C, CHR ''u'', CHR ''0'', CHR ''0'',
         hex_char (of_char c div 16), hex_char (of_char c mod 16)]
      else [c])"

definition quote :: "string \<Rightarrow> string" where
  "quote s = CHR 0x22 # concat (map quote_char s) @ [CHR 0x22]"

text \<open>The texts of the elements, with commas between them.\<close>

fun join :: "string list \<Rightarrow> string" where
  "join [] = []"
| "join [x] = x"
| "join (x # y # ys) = x @ CHR '','' # join (y # ys)"

fun stringify :: "json_value \<Rightarrow> string" where
  "stringify JNull = ''null''"
| "stringify (JBool b) = (if b then ''true'' else ''false'')"
| "stringify (JNumber i) = number_text i"
| "stringify (JString s) = quote s"
| "stringify (JArray xs) = CHR ''['' # join (map stringify xs) @ '']''"
| "stringify (JObject kvs) =
     CHR ''{'' # join (map (\<lambda>(k, v). quote k @ CHR '':'' # stringify v) kvs) @ ''}''"

subsection \<open>Reading\<close>

text \<open>
  \<^verbatim>\<open>JSON.parse\<close>, by recursive descent over the JSON grammar: white space between the
  tokens, the escapes of a string, no leading zero in a number, no comma after the last
  element. \<open>None\<close> is the \<^verbatim>\<open>SyntaxError\<close>. Two limits of the model read as a refusal
  too: a number with a fraction or an exponent (the counts are integers) and a
  \<^verbatim>\<open>\uXXXX\<close> escape from 256 on (a character here is a code unit below 256).
\<close>

definition is_ws :: "char \<Rightarrow> bool" where
  "is_ws c = (c = CHR '' '' \<or> c = CHR 0x09 \<or> c = CHR 0x0A \<or> c = CHR 0x0D)"

definition skip_ws :: "string \<Rightarrow> string" where
  "skip_ws s = dropWhile is_ws s"

definition is_digit :: "char \<Rightarrow> bool" where
  "is_digit c = (48 \<le> (of_char c :: nat) \<and> (of_char c :: nat) \<le> 57)"

definition digits_val :: "string \<Rightarrow> nat" where
  "digits_val ds = foldl (\<lambda>a c. 10 * a + (of_char c - 48)) 0 ds"

definition unhex :: "char \<Rightarrow> nat option" where
  "unhex c =
     (let n = (of_char c :: nat)
      in if 48 \<le> n \<and> n \<le> 57 then Some (n - 48)
         else if 97 \<le> n \<and> n \<le> 102 then Some (n - 87)
         else if 65 \<le> n \<and> n \<le> 70 then Some (n - 55)
         else None)"

definition unescape :: "char \<Rightarrow> char option" where
  "unescape e =
     (if e = CHR 0x22 then Some (CHR 0x22)
      else if e = CHR 0x5C then Some (CHR 0x5C)
      else if e = CHR ''/'' then Some (CHR ''/'')
      else if e = CHR ''b'' then Some (CHR 0x08)
      else if e = CHR ''f'' then Some (CHR 0x0C)
      else if e = CHR ''n'' then Some (CHR 0x0A)
      else if e = CHR ''r'' then Some (CHR 0x0D)
      else if e = CHR ''t'' then Some (CHR 0x09)
      else None)"

definition unicode_escape :: "char \<Rightarrow> char \<Rightarrow> char \<Rightarrow> char \<Rightarrow> char option" where
  "unicode_escape a b c d =
     (case (unhex a, unhex b, unhex c, unhex d) of
        (Some h3, Some h2, Some h1, Some h0) \<Rightarrow>
          if h3 = 0 \<and> h2 = 0 then Some (char_of (16 * h1 + h0)) else None
      | _ \<Rightarrow> None)"

text \<open>The characters of a string after its opening quote, and what follows the closing one.\<close>

fun parse_chars :: "string \<Rightarrow> (string \<times> string) option" where
  "parse_chars [] = None"
| "parse_chars (c # cs) =
     (if c = CHR 0x22 then Some ([], cs)
      else if c = CHR 0x5C then
        (case cs of
           [] \<Rightarrow> None
         | e # es \<Rightarrow>
             if e = CHR ''u'' then
               (case es of
                  a # b # c' # d # r \<Rightarrow>
                    (case unicode_escape a b c' d of
                       None \<Rightarrow> None
                     | Some x \<Rightarrow> map_option (\<lambda>(t, r'). (x # t, r')) (parse_chars r))
                | _ \<Rightarrow> None)
             else
               (case unescape e of
                  None \<Rightarrow> None
                | Some x \<Rightarrow> map_option (\<lambda>(t, r'). (x # t, r')) (parse_chars es)))
      else if (of_char c :: nat) < 32 then None
      else map_option (\<lambda>(t, r'). (c # t, r')) (parse_chars cs))"

definition parse_number :: "string \<Rightarrow> (int \<times> string) option" where
  "parse_number s =
     (let negative = (s \<noteq> [] \<and> hd s = CHR ''-'');
          body = (if negative then tl s else s);
          ds = takeWhile is_digit body;
          r = dropWhile is_digit body
      in if ds = [] then None
         else if hd ds = CHR ''0'' \<and> 1 < length ds then None
         else if r \<noteq> [] \<and> (hd r = CHR ''.'' \<or> hd r = CHR ''e'' \<or> hd r = CHR ''E'') then None
         else Some (if negative then - int (digits_val ds) else int (digits_val ds), r))"

text \<open>
  The object of a member list: a name that comes again keeps its place and takes the later
  value, as a property that is defined twice does.
\<close>

definition build_object :: "(string \<times> json_value) list \<Rightarrow> json_value" where
  "build_object kvs = JObject (foldl (\<lambda>acc (k, v). AList.update k v acc) [] kvs)"

text \<open>
  The first argument bounds the depth of the descent and the number of elements read; the
  length of the text is enough for both (lemma \<open>need_le_length\<close> below).
\<close>

fun parse_value :: "nat \<Rightarrow> string \<Rightarrow> (json_value \<times> string) option"
  and parse_elements :: "nat \<Rightarrow> string \<Rightarrow> (json_value list \<times> string) option"
  and parse_members :: "nat \<Rightarrow> string \<Rightarrow> ((string \<times> json_value) list \<times> string) option"
where
  "parse_value 0 s = None"
| "parse_value (Suc n) s =
     (case skip_ws s of
        [] \<Rightarrow> None
      | c # cs \<Rightarrow>
          if c = CHR ''{'' then
            (case skip_ws cs of
               [] \<Rightarrow> None
             | d # ds \<Rightarrow>
                 if d = CHR ''}'' then Some (JObject [], ds)
                 else map_option (\<lambda>(kvs, r). (build_object kvs, r)) (parse_members n (d # ds)))
          else if c = CHR ''['' then
            (case skip_ws cs of
               [] \<Rightarrow> None
             | d # ds \<Rightarrow>
                 if d = CHR '']'' then Some (JArray [], ds)
                 else map_option (\<lambda>(vs, r). (JArray vs, r)) (parse_elements n (d # ds)))
          else if c = CHR 0x22 then map_option (\<lambda>(t, r). (JString t, r)) (parse_chars cs)
          else if take 4 (c # cs) = ''null'' then Some (JNull, drop 4 (c # cs))
          else if take 4 (c # cs) = ''true'' then Some (JBool True, drop 4 (c # cs))
          else if take 5 (c # cs) = ''false'' then Some (JBool False, drop 5 (c # cs))
          else map_option (\<lambda>(i, r). (JNumber i, r)) (parse_number (c # cs)))"
| "parse_elements 0 s = None"
| "parse_elements (Suc n) s =
     (case parse_value n s of
        None \<Rightarrow> None
      | Some (v, r) \<Rightarrow>
          (case skip_ws r of
             [] \<Rightarrow> None
           | c # cs \<Rightarrow>
               if c = CHR '','' then map_option (\<lambda>(vs, r'). (v # vs, r')) (parse_elements n cs)
               else if c = CHR '']'' then Some ([v], cs)
               else None))"
| "parse_members 0 s = None"
| "parse_members (Suc n) s =
     (case skip_ws s of
        [] \<Rightarrow> None
      | c # cs \<Rightarrow>
          if c \<noteq> CHR 0x22 then None
          else
            (case parse_chars cs of
               None \<Rightarrow> None
             | Some (k, r) \<Rightarrow>
                 (case skip_ws r of
                    [] \<Rightarrow> None
                  | c1 # r1 \<Rightarrow>
                      if c1 \<noteq> CHR '':'' then None
                      else
                        (case parse_value n r1 of
                           None \<Rightarrow> None
                         | Some (v, r2) \<Rightarrow>
                             (case skip_ws r2 of
                                [] \<Rightarrow> None
                              | c2 # r3 \<Rightarrow>
                                  if c2 = CHR '','' then
                                    map_option (\<lambda>(kvs, r'). ((k, v) # kvs, r')) (parse_members n r3)
                                  else if c2 = CHR ''}'' then Some ([(k, v)], r3)
                                  else None)))))"

text \<open>The whole text is one value, with nothing but white space after it.\<close>

definition parse_json :: "string \<Rightarrow> json_value option" where
  "parse_json s =
     (case parse_value (Suc (length s)) s of
        None \<Rightarrow> None
      | Some (v, r) \<Rightarrow> if skip_ws r = [] then Some v else None)"

subsection \<open>Values of objects\<close>


fun need :: "json_value \<Rightarrow> nat" where
  "need (JArray xs) = Suc (length xs + sum_list (map need xs))"
| "need (JObject kvs) = Suc (length kvs + sum_list (map (\<lambda>kv. need (snd kv)) kvs))"
| "need v = Suc 0"


subsection \<open>The persisted fields as JSON\<close>

text \<open>
  The four fields as JSON values, and back. A map is written with its names in ascending
  order: the state keeps a map as a function, which has forgotten the order in which the
  names came (the platform writes them in that order); the text has the same length, and
  the same map is read from it. A comment is written with its properties in the order of
  the object literal of \<^verbatim>\<open>handleAddComment\<close>.

  The source casts what \<^verbatim>\<open>JSON.parse\<close> returns to the expected type unchecked. A text
  that is JSON of another shape has no value in the typed state; the readers below answer
  \<open>None\<close> for it, so the model takes such an entry as it takes one that is not JSON.
\<close>

definition number_of_json :: "json_value \<Rightarrow> int option" where
  "number_of_json j = (case j of JNumber i \<Rightarrow> Some i | _ \<Rightarrow> None)"

definition string_of_json :: "json_value \<Rightarrow> string option" where
  "string_of_json j = (case j of JString s \<Rightarrow> Some s | _ \<Rightarrow> None)"

definition json_of_strings :: "string list \<Rightarrow> json_value" where
  "json_of_strings xs = JArray (map JString xs)"

definition strings_of_json :: "json_value \<Rightarrow> string list option" where
  "strings_of_json j = (case j of JArray js \<Rightarrow> those (map string_of_json js) | _ \<Rightarrow> None)"

definition json_of_comment :: "Comment \<Rightarrow> json_value" where
  "json_of_comment c =
     JObject [(''id'', JString (cid c)), (''videoId'', JString (videoId c)),
              (''author'', JString (author c)), (''text'', JString (ctext c)),
              (''createdAt'', JString (createdAt c))]"

definition string_property :: "(string \<times> json_value) list \<Rightarrow> string \<Rightarrow> string option" where
  "string_property kvs k = (case map_of kvs k of None \<Rightarrow> None | Some j \<Rightarrow> string_of_json j)"

definition comment_of_json :: "json_value \<Rightarrow> Comment option" where
  "comment_of_json j =
     (case j of
        JObject kvs \<Rightarrow>
          (case string_property kvs ''id'' of None \<Rightarrow> None | Some i \<Rightarrow>
          (case string_property kvs ''videoId'' of None \<Rightarrow> None | Some v \<Rightarrow>
          (case string_property kvs ''author'' of None \<Rightarrow> None | Some a \<Rightarrow>
          (case string_property kvs ''text'' of None \<Rightarrow> None | Some t \<Rightarrow>
          (case string_property kvs ''createdAt'' of None \<Rightarrow> None | Some d \<Rightarrow>
             Some \<lparr>cid = i, videoId = v, author = a, ctext = t, createdAt = d\<rparr>)))))
      | _ \<Rightarrow> None)"

definition json_of_comments :: "Comment list \<Rightarrow> json_value" where
  "json_of_comments cs = JArray (map json_of_comment cs)"

definition comments_of_json :: "json_value \<Rightarrow> Comment list option" where
  "comments_of_json j = (case j of JArray js \<Rightarrow> those (map comment_of_json js) | _ \<Rightarrow> None)"

definition json_of_map :: "('v \<Rightarrow> json_value) \<Rightarrow> (string \<rightharpoonup> 'v) \<Rightarrow> json_value" where
  "json_of_map enc m = JObject (map (\<lambda>k. (k, enc (the (m k)))) (sorted_list_of_set (dom m)))"

definition map_of_json :: "(json_value \<Rightarrow> 'v option) \<Rightarrow> json_value \<Rightarrow> (string \<rightharpoonup> 'v) option" where
  "map_of_json dec j =
     (case j of
        JObject kvs \<Rightarrow>
          map_option (\<lambda>vs. map_of (zip (map fst kvs) vs)) (those (map (\<lambda>kv. dec (snd kv)) kvs))
      | _ \<Rightarrow> None)"


section \<open>The persistent store\<close>

definition LIKES_KEY :: string where "LIKES_KEY = ''wowsite_likes_v1''"
definition USER_LIKES_KEY :: string where "USER_LIKES_KEY = ''wowsite_userlikes_v1''"
definition COMMENTS_KEY :: string where "COMMENTS_KEY = ''wowsite_comments_v1''"
definition USER_AVATARS_KEY :: string where "USER_AVATARS_KEY = ''wowsite_user_avatars_v1''"

text \<open>
  The browser as the two storage functions see it: whether \<^verbatim>\<open>window\<close> exists, the
  entries of \<^verbatim>\<open>localStorage\<close> and the number of characters the store may hold
  (\<^verbatim>\<open>setItem\<close> throws when a write would exceed it).
\<close>

record browser =
  has_window :: bool
  capacity :: nat
  items :: "(string \<times> string) list"

definition used :: "(string \<times> string) list \<Rightarrow> nat" where
  "used kvs = sum_list (map (\<lambda>(k, v). length k + length v) kvs)"

definition getItem :: "browser \<Rightarrow> string \<Rightarrow> string option" where
  "getItem b key = map_of (items b) key"

text \<open>\<open>None\<close>: the call throws.\<close>

definition setItem :: "browser \<Rightarrow> string \<Rightarrow> string \<Rightarrow> browser option" where
  "setItem b key raw =
     (let items' = AList.update key raw (items b)
      in if used items' \<le> capacity b then Some (b\<lparr>items := items'\<rparr>) else None)"

text \<open>
  \<^verbatim>\<open>loadFromStorage<T>\<close> and \<^verbatim>\<open>saveToStorage<T>\<close> are generic in the type of
  the stored value, and so in \<^verbatim>\<open>JSON.stringify\<close> and \<^verbatim>\<open>JSON.parse\<close> at that type;
  \<open>None\<close> is the exception that \<^verbatim>\<open>JSON.parse\<close> throws. The four instances that the
  component uses follow the two functions.
\<close>

record 'a JSON =
  JSON_stringify :: "'a \<Rightarrow> string"
  JSON_parse :: "string \<Rightarrow> 'a option"

definition loadFromStorage :: "'a JSON \<Rightarrow> browser \<Rightarrow> string \<Rightarrow> 'a \<Rightarrow> 'a" where
  "loadFromStorage j b key fallback =
     (if \<not> has_window b then fallback
      else
        (case getItem b key of
           None \<Rightarrow> fallback
         | Some raw \<Rightarrow>
             if raw = [] then fallback
             else (case JSON_parse j raw of None \<Rightarrow> fallback | Some v \<Rightarrow> v)))"

definition saveToStorage :: "'a JSON \<Rightarrow> browser \<Rightarrow> string \<Rightarrow> 'a \<Rightarrow> browser" where
  "saveToStorage j b key v =
     (if \<not> has_window b then b
      else (case setItem b key (JSON_stringify j v) of None \<Rightarrow> b | Some b' \<Rightarrow> b'))"

text \<open>The hydration effect: the four loads and their fallbacks.\<close>

definition hydrate ::
  "(string \<rightharpoonup> int) JSON \<Rightarrow> (string \<rightharpoonup> string list) JSON \<Rightarrow> Comment list JSON \<Rightarrow>
   (string \<rightharpoonup> string) JSON \<Rightarrow> browser \<Rightarrow> app \<Rightarrow> app"
where
  "hydrate jl ju jc ja b s =
     s\<lparr>likes := loadFromStorage jl b LIKES_KEY Map.empty,
       userLikes := loadFromStorage ju b USER_LIKES_KEY Map.empty,
       comments := loadFromStorage jc b COMMENTS_KEY [],
       avatars := loadFromStorage ja b USER_AVATARS_KEY Map.empty\<rparr>"


text \<open>\<^verbatim>\<open>JSON.stringify\<close> and \<^verbatim>\<open>JSON.parse\<close> of the platform at the four persisted fields.\<close>

definition codec :: "('a \<Rightarrow> json_value) \<Rightarrow> (json_value \<Rightarrow> 'a option) \<Rightarrow> 'a JSON" where
  "codec enc dec =
     \<lparr>JSON_stringify = (\<lambda>v. stringify (enc v)),
      JSON_parse = (\<lambda>raw. case parse_json raw of None \<Rightarrow> None | Some j \<Rightarrow> dec j)\<rparr>"

definition likes_codec :: "(string \<rightharpoonup> int) JSON" where
  "likes_codec = codec (json_of_map JNumber) (map_of_json number_of_json)"

definition userLikes_codec :: "(string \<rightharpoonup> string list) JSON" where
  "userLikes_codec = codec (json_of_map json_of_strings) (map_of_json strings_of_json)"

definition comments_codec :: "Comment list JSON" where
  "comments_codec = codec json_of_comments comments_of_json"

definition avatars_codec :: "(string \<rightharpoonup> string) JSON" where
  "avatars_codec = codec (json_of_map JString) (map_of_json string_of_json)"

text \<open>The hydration effect of the component, on the platform's JSON.\<close>

definition hydration :: "browser \<Rightarrow> app \<Rightarrow> app" where
  "hydration b s = hydrate likes_codec userLikes_codec comments_codec avatars_codec b s"

text \<open>
  The four save effects: \<^verbatim>\<open>useEffect(() => { saveToStorage(LIKES_KEY, likes) }, [likes])\<close>
  and its three siblings.
\<close>

definition save_likes :: "browser \<Rightarrow> app \<Rightarrow> browser" where
  "save_likes b s = saveToStorage likes_codec b LIKES_KEY (likes s)"

definition save_userLikes :: "browser \<Rightarrow> app \<Rightarrow> browser" where
  "save_userLikes b s = saveToStorage userLikes_codec b USER_LIKES_KEY (userLikes s)"

definition save_comments :: "browser \<Rightarrow> app \<Rightarrow> browser" where
  "save_comments b s = saveToStorage comments_codec b COMMENTS_KEY (comments s)"

definition save_avatars :: "browser \<Rightarrow> app \<Rightarrow> browser" where
  "save_avatars b s = saveToStorage avatars_codec b USER_AVATARS_KEY (avatars s)"

definition save_all :: "browser \<Rightarrow> app \<Rightarrow> browser" where
  "save_all b s = save_avatars (save_comments (save_userLikes (save_likes b s) s) s) s"

section \<open>Sessions\<close>

text \<open>
  A session is the state of the component and the store beside it. Effects run after a
  render, in the order of their declaration, each when one of its dependencies is a new
  value. At the mount the hydration effect reads the store and sets the four fields, then
  the four save effects write the initial values of the first render; the render that
  follows has the hydrated values, all of them new, and the four save effects write them.
\<close>

definition mount :: "browser \<Rightarrow> app \<times> browser" where
  "mount b = (let s = hydration b app_init in (s, save_all (save_all b app_init) s))"



section \<open>Example states\<close>

text \<open>A user of the identity service without metadata, and the state after that user's sign-in.\<close>

definition alice :: SessionUser where
  "alice = \<lparr>user_id = ''user-1'', user_email = Some ''alice@example.com'', user_metadata = None\<rparr>"

definition alice_in :: app where
  "alice_in = app_step (AuthStateChange (Some alice)) app_init"





section \<open>Navigation: properties\<close>

lemma filtered_ALL_VIDEOS_length: "length (filtered ALL_VIDEOS tab) = 2"
  by (cases tab) (simp_all add: filtered_def ALL_VIDEOS_def)

lemma length_or_1_pos: "0 < length_or_1 xs"
  by (simp add: length_or_1_def)

lemma length_or_1_nonempty: "xs \<noteq> [] \<Longrightarrow> length_or_1 xs = int (length xs)"
  by (simp add: length_or_1_def)

lemma js_rem_nonneg: "0 \<le> a \<Longrightarrow> 0 < b \<Longrightarrow> js_rem a b = Some (a mod b)"
  by (simp add: js_rem_def sgn_if)

lemma js_rem_one: "js_rem a 1 = Some 0"
  by (simp add: js_rem_def)

lemma cycle_next_in_range:
  assumes "0 \<le> p" and "p < length_or_1 (filtered catalog tab)" and "d = 1 \<or> d = - 1"
  shows "cycle_next catalog tab (Some p) d = Some ((p + d) mod length_or_1 (filtered catalog tab))"
proof -
  let ?len = "length_or_1 (filtered catalog tab)"
  have pos: "0 < ?len" by (rule length_or_1_pos)
  from assms pos have "0 \<le> p + d + ?len" by auto
  then have "js_rem (p + d + ?len) ?len = Some ((p + d + ?len) mod ?len)"
    using pos by (rule js_rem_nonneg)
  then show ?thesis by (simp add: cycle_next_def Let_def)
qed

lemma cycleVideo_tab [simp]: "activeTab (cycleVideo catalog d s) = activeTab s"
  by (simp add: cycleVideo_def)

text \<open>
  Claim C9. The index computation of \<^verbatim>\<open>cycleVideo\<close> yields a number, never NaN, for
  every catalog, tab, index and direction: the divisor is never zero. When the filtered
  list is empty its length counts as 1, the new index is 0, and \<^verbatim>\<open>currentVideo\<close> is
  null, so no card is rendered.
\<close>

theorem cycle_next_total:
  "(\<exists>n. cycle_next catalog tab (Some p) d = Some n) \<and>
   (filtered catalog tab = [] \<longrightarrow>
      length_or_1 (filtered catalog tab) = 1 \<and>
      cycle_next catalog tab (Some p) d = Some 0 \<and>
      currentVideo catalog \<lparr>activeTab = tab, currentIndex = i\<rparr> = None)"
proof -
  have "length_or_1 (filtered catalog tab) \<noteq> 0"
    using length_or_1_pos [of "filtered catalog tab"] by simp
  then have total: "\<exists>n. cycle_next catalog tab (Some p) d = Some n"
    by (simp add: cycle_next_def Let_def js_rem_def)
  have empty: "length_or_1 (filtered catalog tab) = 1 \<and>
      cycle_next catalog tab (Some p) d = Some 0 \<and>
      currentVideo catalog \<lparr>activeTab = tab, currentIndex = i\<rparr> = None"
    if "filtered catalog tab = []"
    using that
    by (cases i) (simp_all add: length_or_1_def cycle_next_def js_rem_one currentVideo_def js_index_def)
  from total empty show ?thesis by blast
qed

text \<open>On the empty catalog, forwards and backwards.\<close>

theorem cycle_next_total_witness:
  "filtered [] your = [] \<and> length_or_1 (filtered [] your) = 1 \<and>
   cycle_next [] your (Some 0) 1 = Some 0 \<and> cycle_next [] your (Some 0) (- 1) = Some 0 \<and>
   currentVideo [] \<lparr>activeTab = your, currentIndex = Some 0\<rparr> = None"
  using cycle_next_total [of "[]" your 0 1 "Some 0"] cycle_next_total [of "[]" your 0 "- 1" "Some 0"]
  by (simp add: filtered_def)

text \<open>
  On the two trending videos, three steps forward from index 0 end at index 1, not at 0.
\<close>

theorem cycleVideo_three_next_counterexample:
  "length (filtered ALL_VIDEOS (activeTab nav_init)) = 2 \<and> currentIndex nav_init = Some 0 \<and>
   currentIndex (cycleVideo ALL_VIDEOS 1 (cycleVideo ALL_VIDEOS 1 (cycleVideo ALL_VIDEOS 1 nav_init)))
     = Some 1 \<and>
   currentIndex (cycleVideo ALL_VIDEOS 1 (cycleVideo ALL_VIDEOS 1 (cycleVideo ALL_VIDEOS 1 nav_init)))
     \<noteq> Some 0"
  by (simp add: filtered_ALL_VIDEOS_length cycleVideo_def cycle_next_def length_or_1_def
      js_rem_def nav_init_def)

lemma cycleVideo_funpow_tab [simp]: "activeTab ((cycleVideo catalog d ^^ k) s) = activeTab s"
  by (induction k) simp_all

lemma cycleVideo_index:
  "currentIndex (cycleVideo catalog d s) = cycle_next catalog (activeTab s) (currentIndex s) d"
  by (simp add: cycleVideo_def)

lemma cycleVideo_funpow:
  assumes "currentIndex s = Some p" and "0 \<le> p" and "p < n"
    and "n = int (length (filtered catalog (activeTab s)))" and "d = 1 \<or> d = - 1"
  shows "currentIndex ((cycleVideo catalog d ^^ k) s) = Some ((p + d * int k) mod n)"
proof (induction k)
  case 0
  from assms show ?case by simp
next
  case (Suc k)
  let ?xs = "filtered catalog (activeTab s)"
  let ?q = "(p + d * int k) mod n"
  from assms(2,3) have pos: "0 < n" by simp
  with assms(4) have ne: "?xs \<noteq> []" by auto
  then have len: "length_or_1 ?xs = n" using assms(4) by (simp add: length_or_1_nonempty)
  from pos have q: "0 \<le> ?q" "?q < n" by simp_all
  have "cycle_next catalog (activeTab s) (Some ?q) d = Some ((?q + d) mod n)"
    using cycle_next_in_range [of ?q catalog "activeTab s" d] q len assms(5) by simp
  moreover have "(?q + d) mod n = (p + d * int k + d) mod n"
    by (rule mod_add_left_eq)
  moreover have "p + d * int k + d = p + d * int (Suc k)"
    by (simp add: algebra_simps)
  ultimately have "cycle_next catalog (activeTab s) (Some ?q) d = Some ((p + d * int (Suc k)) mod n)"
    by simp
  then show ?case using Suc by (simp add: cycleVideo_index)
qed

text \<open>
  Claim C5, as amended. From an index \<open>p\<close> within a filtered list of length \<open>n\<close>, advancing
  gives \<open>(p + 1) mod n\<close> and retreating gives \<open>(p - 1) mod n\<close>; \<open>k\<close> steps forward give
  \<open>(p + k) mod n\<close> and \<open>k\<close> steps back give \<open>(p - k) mod n\<close>. On a list of length 2, from
  index 0, two steps forward return to 0 and three steps forward end at 1.
\<close>

theorem cycleVideo_circular:
  assumes "currentIndex s = Some p" and "0 \<le> p" and "p < n"
    and "n = int (length (filtered catalog (activeTab s)))"
  shows "currentIndex (cycleVideo catalog 1 s) = Some ((p + 1) mod n) \<and>
         currentIndex (cycleVideo catalog (- 1) s) = Some ((p - 1) mod n) \<and>
         currentIndex ((cycleVideo catalog 1 ^^ k) s) = Some ((p + int k) mod n) \<and>
         currentIndex ((cycleVideo catalog (- 1) ^^ k) s) = Some ((p - int k) mod n) \<and>
         (n = 2 \<and> p = 0 \<longrightarrow>
            currentIndex (cycleVideo catalog 1 (cycleVideo catalog 1 s)) = Some 0 \<and>
            currentIndex (cycleVideo catalog 1 (cycleVideo catalog 1 (cycleVideo catalog 1 s)))
              = Some 1)"
proof -
  have fwd: "currentIndex ((cycleVideo catalog 1 ^^ j) s) = Some ((p + int j) mod n)" for j
    using cycleVideo_funpow [OF assms, of 1 j] by simp
  have bwd: "currentIndex ((cycleVideo catalog (- 1) ^^ j) s) = Some ((p - int j) mod n)" for j
    using cycleVideo_funpow [OF assms, of "- 1" j] by simp
  have two: "currentIndex (cycleVideo catalog 1 (cycleVideo catalog 1 s)) = Some 0 \<and>
      currentIndex (cycleVideo catalog 1 (cycleVideo catalog 1 (cycleVideo catalog 1 s))) = Some 1"
    if "n = 2" "p = 0"
    using fwd [of 2] fwd [of 3] that by (simp add: numeral_2_eq_2 numeral_3_eq_3)
  from fwd [of 1] bwd [of 1] fwd [of k] bwd [of k] two show ?thesis by simp
qed

text \<open>The application's catalog, from its initial state.\<close>

theorem cycleVideo_circular_witness:
  "currentIndex nav_init = Some 0 \<and> (2::int) = int (length (filtered ALL_VIDEOS (activeTab nav_init))) \<and>
   currentIndex (cycleVideo ALL_VIDEOS 1 nav_init) = Some 1 \<and>
   currentIndex (cycleVideo ALL_VIDEOS (- 1) nav_init) = Some 1 \<and>
   currentIndex (cycleVideo ALL_VIDEOS 1 (cycleVideo ALL_VIDEOS 1 nav_init)) = Some 0 \<and>
   currentIndex (cycleVideo ALL_VIDEOS 1 (cycleVideo ALL_VIDEOS 1 (cycleVideo ALL_VIDEOS 1 nav_init)))
     = Some 1"
proof -
  have i: "currentIndex nav_init = Some 0" by (simp add: nav_init_def)
  have n: "(2::int) = int (length (filtered ALL_VIDEOS (activeTab nav_init)))"
    by (simp add: filtered_ALL_VIDEOS_length)
  have z: "(0::int) \<le> 0" and l: "(0::int) < 2" by simp_all
  have "(1::int) mod 2 = 1" and "(- 1::int) mod 2 = 1" by simp_all
  with cycleVideo_circular [OF i z l n, of 3] i n show ?thesis by simp
qed

lemma clamp_effect_tab [simp]: "activeTab (clamp_effect catalog s) = activeTab s"
  by (simp add: clamp_effect_def split: option.splits)

lemma clamp_effect_in_range:
  assumes "currentIndex s = Some p" and "0 \<le> p"
  shows "\<exists>i. currentIndex (clamp_effect catalog s) = Some i \<and> 0 \<le> i \<and>
             i < length_or_1 (filtered catalog (activeTab s))"
  using assms by (auto simp: clamp_effect_def length_or_1_def)

lemma cycleVideo_nonneg:
  assumes "currentIndex s = Some p" and "0 \<le> p"
    and "p < length_or_1 (filtered catalog (activeTab s))" and "d = 1 \<or> d = - 1"
  shows "\<exists>q. currentIndex (cycleVideo catalog d s) = Some q \<and> 0 \<le> q"
proof -
  have "0 < length_or_1 (filtered catalog (activeTab s))" by (rule length_or_1_pos)
  then have "0 \<le> (p + d) mod length_or_1 (filtered catalog (activeTab s))" by simp
  with cycle_next_in_range [OF assms(2,3,4)] assms(1) show ?thesis
    by (simp add: cycleVideo_def)
qed

lemma nav_handle_nonneg:
  assumes "currentIndex s = Some p" and "0 \<le> p"
    and "p < length_or_1 (filtered catalog (activeTab s))"
  shows "\<exists>q. currentIndex (nav_handle catalog e s) = Some q \<and> 0 \<le> q"
proof (cases e)
  case (TabClick t)
  with assms show ?thesis by (simp add: setActiveTab_def)
next
  case (Wheel deltaY)
  with assms show ?thesis by (simp add: handleWheel_def setActiveTab_def)
next
  case (TouchEnd dx dy)
  with assms cycleVideo_nonneg [OF assms, of 1] cycleVideo_nonneg [OF assms, of "- 1"]
  show ?thesis by (simp add: handleTouchEnd_def setActiveTab_def Let_def)
next
  case (MediaClick clickX width)
  with assms cycleVideo_nonneg [OF assms, of 1] cycleVideo_nonneg [OF assms, of "- 1"]
  show ?thesis by (simp add: handleMediaClick_def)
qed

lemma nav_reachable_in_range:
  "nav_reachable catalog s \<Longrightarrow>
     \<exists>i. currentIndex s = Some i \<and> 0 \<le> i \<and> i < length_or_1 (filtered catalog (activeTab s))"
proof (induction rule: nav_reachable.induct)
  case mount
  have "currentIndex nav_init = Some 0" by (simp add: nav_init_def)
  from clamp_effect_in_range [OF this] show ?case by simp
next
  case (step s e)
  then obtain p where p: "currentIndex s = Some p" "0 \<le> p"
    "p < length_or_1 (filtered catalog (activeTab s))" by blast
  from nav_handle_nonneg [OF p] obtain q
    where "currentIndex (nav_handle catalog e s) = Some q" "0 \<le> q" by blast
  from clamp_effect_in_range [OF this] show ?case by (simp add: nav_step_def)
qed

lemma nav_handle_cases:
  "nav_handle catalog e s = s \<or> (\<exists>t. nav_handle catalog e s = setActiveTab t s) \<or>
   (\<exists>d. (d = 1 \<or> d = - 1) \<and> nav_handle catalog e s = cycleVideo catalog d s)"
proof (cases e)
  case (TabClick t)
  then show ?thesis by auto
next
  case (Wheel deltaY)
  then show ?thesis by (auto simp: handleWheel_def)
next
  case (TouchEnd dx dy)
  then show ?thesis by (auto simp: handleTouchEnd_def Let_def)
next
  case (MediaClick clickX width)
  then show ?thesis by (auto simp: handleMediaClick_def)
qed

lemma nav_handle_ALL_VIDEOS:
  assumes "nav_reachable ALL_VIDEOS r"
  shows "\<exists>i. currentIndex (nav_handle ALL_VIDEOS e r) = Some i \<and> 0 \<le> i \<and>
    i < int (length (filtered ALL_VIDEOS (activeTab (nav_handle ALL_VIDEOS e r))))"
proof -
  from nav_reachable_in_range [OF assms] obtain p
    where p: "currentIndex r = Some p" "0 \<le> p" "p < 2"
    by (auto simp: length_or_1_def filtered_ALL_VIDEOS_length)
  have two: "(2::int) = int (length (filtered ALL_VIDEOS (activeTab r)))"
    by (simp add: filtered_ALL_VIDEOS_length)
  from nav_handle_cases [of ALL_VIDEOS e r] show ?thesis
  proof (elim disjE exE conjE)
    assume "nav_handle ALL_VIDEOS e r = r"
    with p show ?thesis by (simp add: filtered_ALL_VIDEOS_length)
  next
    fix t assume "nav_handle ALL_VIDEOS e r = setActiveTab t r"
    with p show ?thesis by (simp add: filtered_ALL_VIDEOS_length setActiveTab_def)
  next
    fix d :: int assume d: "d = 1" and h: "nav_handle ALL_VIDEOS e r = cycleVideo ALL_VIDEOS d r"
    from cycleVideo_funpow [OF p two, of d 1] d h show ?thesis
      by (simp add: filtered_ALL_VIDEOS_length)
  next
    fix d :: int assume d: "d = - 1" and h: "nav_handle ALL_VIDEOS e r = cycleVideo ALL_VIDEOS d r"
    from cycleVideo_funpow [OF p two, of d 1] d h show ?thesis
      by (simp add: filtered_ALL_VIDEOS_length)
  qed
qed

text \<open>
  Claim C6. In every reachable navigation state whose filtered list is not empty, the
  index is a number within the list. A tab switch onto a list that the previous index is
  at or beyond resets the index to 0. On the application's own catalog the index is
  within the list already when a handler has run and the effect has not.
\<close>

theorem currentIndex_in_range:
  "(nav_reachable catalog s \<and> filtered catalog (activeTab s) \<noteq> [] \<longrightarrow>
      (\<exists>i. currentIndex s = Some i \<and> 0 \<le> i \<and>
           i < int (length (filtered catalog (activeTab s))))) \<and>
   (currentIndex s = Some k \<and> int (length (filtered catalog t)) \<le> k \<longrightarrow>
      currentIndex (nav_step catalog (TabClick t) s) = Some 0) \<and>
   (nav_reachable ALL_VIDEOS r \<longrightarrow>
      (\<exists>i. currentIndex (nav_handle ALL_VIDEOS e r) = Some i \<and> 0 \<le> i \<and>
           i < int (length (filtered ALL_VIDEOS (activeTab (nav_handle ALL_VIDEOS e r))))))"
proof -
  have inv: "\<exists>i. currentIndex s = Some i \<and> 0 \<le> i \<and>
      i < int (length (filtered catalog (activeTab s)))"
    if "nav_reachable catalog s" "filtered catalog (activeTab s) \<noteq> []"
    using nav_reachable_in_range [OF that(1)] that(2) by (simp add: length_or_1_nonempty)
  have reset: "currentIndex (nav_step catalog (TabClick t) s) = Some 0"
    if "currentIndex s = Some k" "int (length (filtered catalog t)) \<le> k"
    using that by (simp add: nav_step_def setActiveTab_def clamp_effect_def)
  from inv reset nav_handle_ALL_VIDEOS [of r e] show ?thesis by blast
qed

text \<open>
  A catalog of two trending videos and one of the user's own: one step forward on
  "trending", then the switch to "your". On the application's catalog: a click on the
  left half of the first video.
\<close>

theorem currentIndex_in_range_witness:
  "nav_reachable (take 3 ALL_VIDEOS)
     (nav_step (take 3 ALL_VIDEOS) (MediaClick 3 4) (clamp_effect (take 3 ALL_VIDEOS) nav_init)) \<and>
   activeTab (nav_step (take 3 ALL_VIDEOS) (MediaClick 3 4) (clamp_effect (take 3 ALL_VIDEOS) nav_init))
     = trending \<and>
   length (filtered (take 3 ALL_VIDEOS) trending) = 2 \<and>
   length (filtered (take 3 ALL_VIDEOS) your) = 1 \<and>
   currentIndex (nav_step (take 3 ALL_VIDEOS) (MediaClick 3 4) (clamp_effect (take 3 ALL_VIDEOS) nav_init))
     = Some 1 \<and>
   currentIndex (nav_step (take 3 ALL_VIDEOS) (TabClick your)
     (nav_step (take 3 ALL_VIDEOS) (MediaClick 3 4) (clamp_effect (take 3 ALL_VIDEOS) nav_init)))
     = Some 0 \<and>
   nav_reachable ALL_VIDEOS (clamp_effect ALL_VIDEOS nav_init) \<and>
   nav_handle ALL_VIDEOS (MediaClick 1 4) (clamp_effect ALL_VIDEOS nav_init)
     = \<lparr>activeTab = trending, currentIndex = Some 1\<rparr>"
proof -
  let ?C = "take 3 ALL_VIDEOS"
  let ?s = "nav_step ?C (MediaClick 3 4) (clamp_effect ?C nav_init)"
  let ?r = "clamp_effect ALL_VIDEOS nav_init"
  have lt: "length (filtered ?C trending) = 2" and ly: "length (filtered ?C your) = 1"
    by (simp_all add: filtered_def ALL_VIDEOS_def)
  have r: "nav_reachable ?C ?s" by (intro nav_reachable.step nav_reachable.mount)
  have s: "?s = \<lparr>activeTab = trending, currentIndex = Some 1\<rparr>"
    by (simp add: nav_step_def handleMediaClick_def clamp_effect_def nav_init_def cycleVideo_def
        cycle_next_def length_or_1_def js_rem_def lt)
  have ne: "filtered ?C (activeTab ?s) \<noteq> []" using lt s by auto
  have k: "currentIndex ?s = Some 1 \<and> int (length (filtered ?C your)) \<le> 1"
    using s ly by simp
  have m: "nav_reachable ALL_VIDEOS ?r" by (rule nav_reachable.mount)
  have h: "nav_handle ALL_VIDEOS (MediaClick 1 4) ?r = \<lparr>activeTab = trending, currentIndex = Some 1\<rparr>"
    by (simp add: handleMediaClick_def clamp_effect_def nav_init_def cycleVideo_def
        cycle_next_def length_or_1_def js_rem_def filtered_ALL_VIDEOS_length)
  from currentIndex_in_range [of ?C ?s 1 your ?r "MediaClick 1 4"] r ne k s lt ly m h
  show ?thesis by simp
qed

section \<open>Likes: properties\<close>

lemma likedList_update:
  "likedList (s\<lparr>userLikes := (userLikes s)(n \<mapsto> l), likes := k\<rparr>) m =
     (if m = n then l else likedList s m)"
  by (simp add: likedList_def)

lemma likedList_toggleLike:
  assumes "currentUser s = Some u"
  shows "likedList (toggleLike v s) name =
    (if name = username u then
       (if v \<in> set (likedList s name) then filter (\<lambda>i. i \<noteq> v) (likedList s name)
        else likedList s name @ [v])
     else likedList s name)"
  using assms by (simp add: toggleLike_def Let_def likedList_update)

lemma likesForVideo_toggleLike:
  assumes "currentUser s = Some u"
  shows "likesForVideo (toggleLike v s) w =
    (if w = v then
       (if v \<in> set (likedList s (username u)) then max 0 (likesForVideo s v - 1)
        else likesForVideo s v + 1)
     else likesForVideo s w)"
  using assms by (simp add: toggleLike_def likesForVideo_def Let_def)

lemma currentUser_toggleLike [simp]: "currentUser (toggleLike v s) = currentUser s"
  by (simp add: toggleLike_def Let_def split: option.splits)

lemma likers_toggleLike_same:
  assumes "currentUser s = Some u"
  shows "likers (toggleLike v s) v =
    (if v \<in> set (likedList s (username u)) then likers s v - {username u}
     else insert (username u) (likers s v))"
  using assms by (auto simp: likers_def likedList_toggleLike)

lemma likers_toggleLike_other:
  assumes "currentUser s = Some u" and "w \<noteq> v"
  shows "likers (toggleLike v s) w = likers s w"
  using assms by (auto simp: likers_def likedList_toggleLike)

lemma likers_subset_dom: "likers s v \<subseteq> dom (userLikes s)"
proof
  fix n
  assume "n \<in> likers s v"
  then have "likedList s n \<noteq> []" by (auto simp: likers_def)
  then show "n \<in> dom (userLikes s)"
    by (cases "userLikes s n") (auto simp: likedList_def)
qed

lemma finite_likers: "finite (dom (userLikes s)) \<Longrightarrow> finite (likers s v)"
  using likers_subset_dom by (rule finite_subset)

lemma dom_userLikes_toggleLike:
  assumes "currentUser s = Some u"
  shows "dom (userLikes (toggleLike v s)) = insert (username u) (dom (userLikes s))"
  using assms by (simp add: toggleLike_def Let_def)

lemma likes_inv_init: "likes_inv app_init"
  by (simp add: likes_inv_def app_init_def likesForVideo_def likers_def likedList_def)

lemma likes_inv_toggleLike:
  assumes inv: "likes_inv s" and u: "currentUser s = Some u"
  shows "likes_inv (toggleLike v s)"
proof -
  from inv have fin: "finite (dom (userLikes s))"
    and cnt: "\<And>w. likesForVideo s w = int (card (likers s w))"
    by (simp_all add: likes_inv_def)
  have fin': "finite (dom (userLikes (toggleLike v s)))"
    using fin by (simp add: dom_userLikes_toggleLike [OF u])
  have "likesForVideo (toggleLike v s) w = int (card (likers (toggleLike v s) w))" for w
  proof (cases "w = v")
    case False
    then show ?thesis
      by (simp add: likesForVideo_toggleLike [OF u] likers_toggleLike_other [OF u] cnt)
  next
    case True
    have finv: "finite (likers s v)" using fin by (rule finite_likers)
    show ?thesis
    proof (cases "v \<in> set (likedList s (username u))")
      case liked: True
      then have mem: "username u \<in> likers s v" by (simp add: likers_def)
      with finv have "card (likers s v) > 0" by (auto simp: card_gt_0_iff)
      moreover have "card (likers s v - {username u}) = card (likers s v) - 1"
        using mem finv by simp
      ultimately show ?thesis
        using liked True
        by (simp add: likesForVideo_toggleLike [OF u] likers_toggleLike_same [OF u] cnt
            of_nat_diff)
    next
      case notliked: False
      then have "username u \<notin> likers s v" by (simp add: likers_def)
      with finv have "card (insert (username u) (likers s v)) = Suc (card (likers s v))"
        by simp
      then show ?thesis
        using notliked True
        by (simp add: likesForVideo_toggleLike [OF u] likers_toggleLike_same [OF u] cnt)
    qed
  qed
  with fin' show ?thesis by (simp add: likes_inv_def)
qed


lemma likes_inv_frame:
  "likes s' = likes s \<Longrightarrow> userLikes s' = userLikes s \<Longrightarrow> likes_inv s' = likes_inv s"
  by (simp add: likes_inv_def likesForVideo_def likers_def likedList_def)

lemma likes_inv_app_step: "likes_inv s \<Longrightarrow> likes_inv (app_step e s)"
proof (cases e)
  case (ToggleLike v)
  assume inv: "likes_inv s"
  show ?thesis
  proof (cases "currentUser s")
    case None
    then have "likes_inv (toggleLike v s) = likes_inv s"
      by (intro likes_inv_frame) (simp_all add: toggleLike_def)
    with inv ToggleLike show ?thesis by simp
  next
    case (Some u)
    with inv ToggleLike show ?thesis by (simp add: likes_inv_toggleLike)
  qed
next
  case (AuthStateChange x)
  assume "likes_inv s"
  moreover have "likes_inv (onAuthStateChange x s) = likes_inv s"
    by (intro likes_inv_frame) (simp_all add: onAuthStateChange_def split: option.splits)
  ultimately show ?thesis using AuthStateChange by simp
next
  case (AuthSubmit m e p r)
  assume "likes_inv s"
  moreover have "likes_inv (handleAuthSubmit m e p r s) = likes_inv s"
    by (intro likes_inv_frame)
      (simp_all add: handleAuthSubmit_def Let_def split: auth_response.splits option.splits)
  ultimately show ?thesis using AuthSubmit by simp
next
  case Logout
  assume "likes_inv s"
  moreover have "likes_inv (handleLogout s) = likes_inv s"
    by (intro likes_inv_frame) (simp_all add: handleLogout_def)
  ultimately show ?thesis using Logout by simp
next
  case (AddComment v t ms stamp)
  assume "likes_inv s"
  moreover have "likes_inv (handleAddComment v t ms stamp s) = likes_inv s"
    by (intro likes_inv_frame) (simp_all add: handleAddComment_def Let_def split: option.splits)
  ultimately show ?thesis using AddComment by simp
next
  case (AvatarChange d)
  assume "likes_inv s"
  moreover have "likes_inv (handleAvatarChange d s) = likes_inv s"
    by (intro likes_inv_frame) (simp_all add: handleAvatarChange_def split: option.splits)
  ultimately show ?thesis using AvatarChange by simp
qed

lemma alice_in_eq:
  "alice_in = app_init\<lparr>currentUser :=
     Some \<lparr>uid = ''user-1'', email = ''alice@example.com'', username = ''alice''\<rparr>\<rparr>"
  by (simp add: alice_in_def alice_def onAuthStateChange_def toCurrentUser_def
      session_username_def deriveUsername_def split_at_head_def)

lemma likes_inv_alice_in: "likes_inv alice_in"
  unfolding alice_in_def by (intro likes_inv_app_step likes_inv_init)

text \<open>
  Claim C2. The like counts of the initial state satisfy the invariant (every video's
  count is the number of usernames whose like list holds it), and a \<^verbatim>\<open>toggleLike\<close>
  by a signed-in user preserves it; counts are never negative.
\<close>

theorem likes_count_invariant:
  "likes_inv app_init \<and>
   (likes_inv s \<and> currentUser s = Some u \<longrightarrow>
      likes_inv (toggleLike v s) \<and>
      (\<forall>w. likesForVideo (toggleLike v s) w = int (card (likers (toggleLike v s) w)) \<and>
           0 \<le> likesForVideo (toggleLike v s) w))"
proof -
  have "likes_inv (toggleLike v s) \<and>
      (\<forall>w. likesForVideo (toggleLike v s) w = int (card (likers (toggleLike v s) w)) \<and>
           0 \<le> likesForVideo (toggleLike v s) w)"
    if "likes_inv s" "currentUser s = Some u"
  proof -
    from likes_inv_toggleLike [OF that] have i: "likes_inv (toggleLike v s)" .
    then show ?thesis by (simp add: likes_inv_def)
  qed
  with likes_inv_init show ?thesis by blast
qed

text \<open>The first like of a signed-in user.\<close>

theorem likes_count_invariant_witness:
  "likes_inv app_init \<and> likes_inv alice_in \<and>
   currentUser alice_in = Some \<lparr>uid = ''user-1'', email = ''alice@example.com'', username = ''alice''\<rparr> \<and>
   likes_inv (toggleLike ''wowfinalfinal1'' alice_in) \<and>
   likesForVideo (toggleLike ''wowfinalfinal1'' alice_in) ''wowfinalfinal1'' = 1 \<and>
   int (card (likers (toggleLike ''wowfinalfinal1'' alice_in) ''wowfinalfinal1'')) = 1"
proof -
  let ?u = "\<lparr>uid = ''user-1'', email = ''alice@example.com'', username = ''alice''\<rparr>"
  have u: "currentUser alice_in = Some ?u" by (simp add: alice_in_eq)
  have i: "likes_inv alice_in" by (rule likes_inv_alice_in)
  have one: "likesForVideo (toggleLike ''wowfinalfinal1'' alice_in) ''wowfinalfinal1'' = 1"
    by (simp add: likesForVideo_toggleLike [OF u])
      (simp add: alice_in_eq app_init_def likedList_def likesForVideo_def)
  from likes_count_invariant [of alice_in ?u "''wowfinalfinal1''"] u i one
  show ?thesis by simp
qed

text \<open>
  Claim C10. A \<^verbatim>\<open>toggleLike\<close> of video \<open>v\<close> by the current user changes no count of
  another video, no like list of another username, no comment and no avatar.
\<close>

theorem toggleLike_frame:
  assumes "currentUser s = Some u"
  shows "(\<forall>w. w \<noteq> v \<longrightarrow> likes (toggleLike v s) w = likes s w) \<and>
         (\<forall>n. n \<noteq> username u \<longrightarrow> userLikes (toggleLike v s) n = userLikes s n) \<and>
         comments (toggleLike v s) = comments s \<and>
         avatars (toggleLike v s) = avatars s"
  using assms by (simp add: toggleLike_def Let_def)

text \<open>A like of the first video, in a state that holds a like of the second.\<close>

theorem toggleLike_frame_witness:
  "currentUser (toggleLike ''wowfinalfinal2'' alice_in) =
     Some \<lparr>uid = ''user-1'', email = ''alice@example.com'', username = ''alice''\<rparr> \<and>
   likes (toggleLike ''wowfinalfinal2'' alice_in) ''wowfinalfinal2'' = Some 1 \<and>
   likes (toggleLike ''wowfinalfinal1'' (toggleLike ''wowfinalfinal2'' alice_in)) ''wowfinalfinal2''
     = Some 1 \<and>
   userLikes (toggleLike ''wowfinalfinal1'' (toggleLike ''wowfinalfinal2'' alice_in)) ''bob''
     = userLikes (toggleLike ''wowfinalfinal2'' alice_in) ''bob'' \<and>
   comments (toggleLike ''wowfinalfinal1'' (toggleLike ''wowfinalfinal2'' alice_in))
     = comments (toggleLike ''wowfinalfinal2'' alice_in) \<and>
   avatars (toggleLike ''wowfinalfinal1'' (toggleLike ''wowfinalfinal2'' alice_in))
     = avatars (toggleLike ''wowfinalfinal2'' alice_in)"
proof -
  let ?u = "\<lparr>uid = ''user-1'', email = ''alice@example.com'', username = ''alice''\<rparr>"
  let ?s = "toggleLike ''wowfinalfinal2'' alice_in"
  have u0: "currentUser alice_in = Some ?u" by (simp add: alice_in_eq)
  have u: "currentUser ?s = Some ?u" using u0 by simp
  have l: "likes ?s ''wowfinalfinal2'' = Some 1"
    by (simp add: toggleLike_def alice_in_eq app_init_def likedList_def likesForVideo_def)
  from toggleLike_frame [OF u, of "''wowfinalfinal1''"] u l show ?thesis by simp
qed

section \<open>Comments: properties\<close>

lemma trim_Nil_iff: "trim t = [] \<longleftrightarrow> (\<forall>c\<in>set t. js_whitespace c)"
proof
  assume "trim t = []"
  then have all: "\<forall>c\<in>set (dropWhile js_whitespace t). js_whitespace c"
    by (simp add: trim_def dropWhile_eq_Nil_conv)
  have "dropWhile js_whitespace t = []"
  proof (rule ccontr)
    assume ne: "dropWhile js_whitespace t \<noteq> []"
    then have "\<not> js_whitespace (hd (dropWhile js_whitespace t))" by (rule hd_dropWhile)
    moreover from ne have "hd (dropWhile js_whitespace t) \<in> set (dropWhile js_whitespace t)"
      by simp
    ultimately show False using all by blast
  qed
  then show "\<forall>c\<in>set t. js_whitespace c" by (simp add: dropWhile_eq_Nil_conv)
next
  assume "\<forall>c\<in>set t. js_whitespace c"
  then have "dropWhile js_whitespace t = []" by (simp add: dropWhile_eq_Nil_conv)
  then show "trim t = []" by (simp only: trim_def rev.simps dropWhile.simps)
qed

text \<open>
  Claim C3. Without a current user \<^verbatim>\<open>handleAddComment\<close> leaves the comments as they
  are and sets the authentication error. With a current user and a text of white space
  only (the empty text included) it leaves the whole state as it is, error fields
  included. With a current user and any other text it appends exactly one comment, whose
  author is the current username and whose text is the trimmed input, and raises no error.
\<close>

theorem handleAddComment_cases:
  "(currentUser s = None \<longrightarrow>
      comments (handleAddComment v t ms stamp s) = comments s \<and>
      authError (handleAddComment v t ms stamp s) = Some ''You need to be logged in to comment.'') \<and>
   (currentUser s = Some u \<and> (\<forall>c\<in>set t. js_whitespace c) \<longrightarrow>
      handleAddComment v t ms stamp s = s) \<and>
   (currentUser s = Some u \<and> (\<exists>c\<in>set t. \<not> js_whitespace c) \<longrightarrow>
      trim t \<noteq> [] \<and>
      comments (handleAddComment v t ms stamp s) =
        comments s @ [\<lparr>cid = v @ ''-'' @ ms, videoId = v, author = username u,
                        ctext = trim t, createdAt = stamp\<rparr>] \<and>
      authError (handleAddComment v t ms stamp s) = authError s)"
proof -
  have out: "comments (handleAddComment v t ms stamp s) = comments s \<and>
      authError (handleAddComment v t ms stamp s) = Some ''You need to be logged in to comment.''"
    if "currentUser s = None"
    using that by (simp add: handleAddComment_def)
  have blank: "handleAddComment v t ms stamp s = s"
    if "currentUser s = Some u" "\<forall>c\<in>set t. js_whitespace c"
  proof -
    from that(2) have "trim t = []" by (simp add: trim_Nil_iff)
    with that(1) show ?thesis by (simp add: handleAddComment_def)
  qed
  have added: "trim t \<noteq> [] \<and>
      comments (handleAddComment v t ms stamp s) =
        comments s @ [\<lparr>cid = v @ ''-'' @ ms, videoId = v, author = username u,
                        ctext = trim t, createdAt = stamp\<rparr>] \<and>
      authError (handleAddComment v t ms stamp s) = authError s"
    if "currentUser s = Some u" "\<exists>c\<in>set t. \<not> js_whitespace c"
  proof -
    from that(2) have "trim t \<noteq> []" by (simp add: trim_Nil_iff)
    with that(1) show ?thesis by (simp add: handleAddComment_def Let_def)
  qed
  from out blank added show ?thesis by blast
qed

lemma js_whitespace_space: "js_whitespace CHR '' ''"
  by (simp add: js_whitespace_def)

lemma trim_nice: "trim ''  nice '' = ''nice''"
  by (simp add: trim_def js_whitespace_def)

text \<open>Signed out; signed in with blanks; signed in with a text.\<close>

theorem handleAddComment_cases_witness:
  "currentUser app_init = None \<and>
   comments (handleAddComment ''wowfinalfinal1'' ''nice'' ''1700000000000''
     ''2023-11-14T22:13:20.000Z'' app_init) = [] \<and>
   authError (handleAddComment ''wowfinalfinal1'' ''nice'' ''1700000000000''
     ''2023-11-14T22:13:20.000Z'' app_init) = Some ''You need to be logged in to comment.'' \<and>
   currentUser alice_in = Some \<lparr>uid = ''user-1'', email = ''alice@example.com'', username = ''alice''\<rparr> \<and>
   handleAddComment ''wowfinalfinal1'' ''   '' ''1700000000000'' ''2023-11-14T22:13:20.000Z'' alice_in
     = alice_in \<and>
   comments (handleAddComment ''wowfinalfinal1'' ''  nice '' ''1700000000000''
     ''2023-11-14T22:13:20.000Z'' alice_in) =
     [\<lparr>cid = ''wowfinalfinal1-1700000000000'', videoId = ''wowfinalfinal1'', author = ''alice'',
       ctext = ''nice'', createdAt = ''2023-11-14T22:13:20.000Z''\<rparr>]"
proof -
  let ?u = "\<lparr>uid = ''user-1'', email = ''alice@example.com'', username = ''alice''\<rparr>"
  have n: "currentUser app_init = None" and c0: "comments app_init = []"
    by (simp_all add: app_init_def)
  have u: "currentUser alice_in = Some ?u" and c1: "comments alice_in = []"
    by (simp_all add: alice_in_eq app_init_def)
  have ws: "\<forall>c\<in>set ''   ''. js_whitespace c" by (simp add: js_whitespace_space)
  have nws: "\<exists>c\<in>set ''  nice ''. \<not> js_whitespace c" by (simp add: js_whitespace_def)
  from handleAddComment_cases [of app_init "''wowfinalfinal1''" "''nice''" "''1700000000000''"
      "''2023-11-14T22:13:20.000Z''" ?u]
    handleAddComment_cases [of alice_in "''wowfinalfinal1''" "''   ''" "''1700000000000''"
      "''2023-11-14T22:13:20.000Z''" ?u]
    handleAddComment_cases [of alice_in "''wowfinalfinal1''" "''  nice ''" "''1700000000000''"
      "''2023-11-14T22:13:20.000Z''" ?u]
    n c0 u c1 ws nws trim_nice
  show ?thesis by simp
qed

text \<open>
  Claim C7. Two comments on one video with the same \<^verbatim>\<open>createdAt\<close>: the comparator
  answers \<open>- 1\<close> whichever comes first, so it tells the sort that each of the two stands
  before the other, and the order of a tie is not settled by it.
\<close>

theorem compareCreatedAt_tie:
  "videoId tie_first = videoId tie_second \<and> createdAt tie_first = createdAt tie_second \<and>
   compareCreatedAt tie_first tie_second = - 1 \<and> compareCreatedAt tie_second tie_first = - 1"
  by (simp add: compareCreatedAt_def tie_first_def tie_second_def)

text \<open>On the model of V8's sort the later of the two comments is presented first.\<close>

lemma commentsForVideo_v8_tie:
  "commentsForVideo v8_sort_short [tie_first, tie_second] ''wowfinalfinal1'' =
     [tie_second, tie_first]"
  by (simp add: commentsForVideo_def v8_sort_short_def compareCreatedAt_def
      tie_first_def tie_second_def)

text \<open>
  On the model of V8's sort the comments presented for a video are the stored comments of
  that video, in ascending order of \<^verbatim>\<open>createdAt\<close>; it is only among equal
  \<^verbatim>\<open>createdAt\<close> that the order goes against the order of insertion.
\<close>

lemma compareCreatedAt_neg: "compareCreatedAt a b < 0 \<longleftrightarrow> createdAt a \<le> createdAt b"
  by (auto simp: compareCreatedAt_def)

lemma mset_take_drop: "mset (take k ys) + mset (drop k ys) = mset ys"
  by (metis append_take_drop_id mset_append)

lemma mset_binary_insert: "mset (binary_insert cmp ys p) = add_mset p (mset ys)"
  by (simp add: binary_insert_def Let_def mset_take_drop)

lemma mset_foldl_binary_insert:
  "mset (foldl (binary_insert cmp) run rest) = mset run + mset rest"
  by (induction rest arbitrary: run) (simp_all add: mset_binary_insert)

lemma mset_count_and_make_run:
  "mset (fst (count_and_make_run cmp xs)) + mset (snd (count_and_make_run cmp xs)) = mset xs"
  by (induction cmp xs rule: count_and_make_run.induct) (simp_all add: Let_def mset_take_drop)

lemma mset_v8_sort_short: "mset (v8_sort_short cmp xs) = mset xs"
proof -
  obtain run rest where r: "count_and_make_run cmp xs = (run, rest)"
    by (cases "count_and_make_run cmp xs")
  with mset_count_and_make_run [of cmp xs] have "mset run + mset rest = mset xs" by simp
  then show ?thesis by (simp add: v8_sort_short_def r mset_foldl_binary_insert)
qed


lemma sorted_count_run_ascending:
  "sorted (map createdAt (previous # take (count_run compareCreatedAt False previous xs) xs))"
proof (induction xs arbitrary: previous)
  case Nil
  show ?case by simp
next
  case (Cons x xs)
  show ?case
  proof (cases "compareCreatedAt x previous < 0")
    case True
    then show ?thesis by simp
  next
    case False
    then have "createdAt previous \<le> createdAt x" by (simp add: compareCreatedAt_neg)
    with False Cons [of x] show ?thesis by (auto intro: order_trans)
  qed
qed

lemma sorted_count_run_descending:
  "sorted_wrt (\<lambda>a b. b \<le> a)
     (map createdAt (previous # take (count_run compareCreatedAt True previous xs) xs))"
proof (induction xs arbitrary: previous)
  case Nil
  show ?case by simp
next
  case (Cons x xs)
  have tr: "transp (\<lambda>a b :: string. b \<le> a)" by (auto intro: transpI)
  show ?case
  proof (cases "compareCreatedAt x previous < 0")
    case False
    then show ?thesis by simp
  next
    case True
    then have "createdAt x \<le> createdAt previous" by (simp add: compareCreatedAt_neg)
    with True Cons [of x] show ?thesis by (simp add: sorted_wrt2 [OF tr] del: sorted_wrt.simps)
  qed
qed

lemma sorted_count_and_make_run:
  "sorted (map createdAt (fst (count_and_make_run compareCreatedAt xs)))"
proof (induction compareCreatedAt xs rule: count_and_make_run.induct)
  case (3 x0 x1 rest)
  show ?case
  proof (cases "compareCreatedAt x1 x0 < 0")
    case True
    then have le: "createdAt x1 \<le> createdAt x0" by (simp add: compareCreatedAt_neg)
    have tr: "transp (\<lambda>a b :: string. b \<le> a)" by (auto intro: transpI)
    let ?l = "x1 # take (count_run compareCreatedAt True x1 rest) rest"
    have "sorted_wrt (\<lambda>a b. b \<le> a) (map createdAt (x0 # ?l))"
      using sorted_count_run_descending [of x1 rest] le
      by (simp add: sorted_wrt2 [OF tr] del: sorted_wrt.simps)
    then have "sorted (rev (map createdAt (x0 # ?l)))"
      by (simp only: sorted_wrt_rev)
    with True show ?thesis by (simp add: Let_def rev_map)
  next
    case False
    then have "createdAt x0 \<le> createdAt x1" by (simp add: compareCreatedAt_neg)
    with False sorted_count_run_ascending [of x1 rest] show ?thesis
      by (auto simp: Let_def intro: order_trans)
  qed
qed simp_all


lemma binary_search_bounds:
  assumes "sorted (map createdAt ys)"
  shows "left \<le> right \<Longrightarrow> right \<le> length ys \<Longrightarrow>
    \<forall>i<left. createdAt (ys ! i) < createdAt pivot \<Longrightarrow>
    \<forall>i. right \<le> i \<and> i < length ys \<longrightarrow> createdAt pivot \<le> createdAt (ys ! i) \<Longrightarrow>
    binary_search compareCreatedAt pivot ys left right \<le> length ys \<and>
    (\<forall>i < binary_search compareCreatedAt pivot ys left right.
        createdAt (ys ! i) < createdAt pivot) \<and>
    (\<forall>i. binary_search compareCreatedAt pivot ys left right \<le> i \<and> i < length ys \<longrightarrow>
        createdAt pivot \<le> createdAt (ys ! i))"
proof (induction "right - left" arbitrary: left right rule: less_induct)
  case less
  show ?case
  proof (cases "left < right")
    case False
    with less.prems have "left = right" by simp
    with False less.prems show ?thesis by (simp add: binary_search.simps)
  next
    case True
    define mid where "mid = left + (right - left) div 2"
    from True have mid: "left \<le> mid" "mid < right" by (simp_all add: mid_def)
    with less.prems have midlen: "mid < length ys" by simp
    have mono: "createdAt (ys ! i) \<le> createdAt (ys ! j)" if "i \<le> j" "j < length ys" for i j
      using assms that by (simp add: sorted_iff_nth_mono)
    show ?thesis
    proof (cases "compareCreatedAt pivot (ys ! mid) < 0")
      case neg: True
      then have le: "createdAt pivot \<le> createdAt (ys ! mid)" by (simp add: compareCreatedAt_neg)
      have upper: "\<forall>i. mid \<le> i \<and> i < length ys \<longrightarrow> createdAt pivot \<le> createdAt (ys ! i)"
        using le mono by (blast intro: order_trans)
      have step: "binary_search compareCreatedAt pivot ys left right =
          binary_search compareCreatedAt pivot ys left mid"
        using True neg by (subst binary_search.simps) (simp add: mid_def Let_def)
      have smaller: "mid - left < right - left" using mid by simp
      have "mid \<le> length ys" using midlen by simp
      from less.hyps [OF smaller mid(1) this less.prems(3) upper]
      show ?thesis by (simp add: step)
    next
      case nonneg: False
      then have gt: "createdAt (ys ! mid) < createdAt pivot" by (simp add: compareCreatedAt_neg)
      have lower: "\<forall>i<mid + 1. createdAt (ys ! i) < createdAt pivot"
      proof (intro allI impI)
        fix i assume "i < mid + 1"
        then have "i \<le> mid" by simp
        from mono [OF this midlen] gt show "createdAt (ys ! i) < createdAt pivot" by simp
      qed
      have step: "binary_search compareCreatedAt pivot ys left right =
          binary_search compareCreatedAt pivot ys (mid + 1) right"
        using True nonneg by (subst binary_search.simps) (simp add: mid_def Let_def)
      have smaller: "right - (mid + 1) < right - left" using mid by simp
      from mid have "mid + 1 \<le> right" by simp
      from less.hyps [OF smaller this less.prems(2) lower less.prems(4)]
      show ?thesis by (simp add: step)
    qed
  qed
qed

lemma sorted_binary_insert:
  assumes "sorted (map createdAt ys)"
  shows "sorted (map createdAt (binary_insert compareCreatedAt ys pivot))"
proof -
  define k where "k = binary_search compareCreatedAt pivot ys 0 (length ys)"
  have none_below: "\<forall>i<0::nat. createdAt (ys ! i) < createdAt pivot" by simp
  have none_above: "\<forall>i. length ys \<le> i \<and> i < length ys \<longrightarrow>
      createdAt pivot \<le> createdAt (ys ! i)" by auto
  from binary_search_bounds [OF assms le0 order_refl none_below none_above]
  have k: "k \<le> length ys" "\<forall>i<k. createdAt (ys ! i) < createdAt pivot"
    "\<forall>i. k \<le> i \<and> i < length ys \<longrightarrow> createdAt pivot \<le> createdAt (ys ! i)"
    by (simp_all add: k_def)
  have below: "createdAt y \<le> createdAt pivot" if "y \<in> set (take k ys)" for y
  proof -
    from that obtain i where "i < k" "i < length ys" "y = ys ! i"
      by (auto simp: in_set_conv_nth)
    with k(2) show ?thesis by auto
  qed
  have above: "createdAt pivot \<le> createdAt y" if "y \<in> set (drop k ys)" for y
  proof -
    from that obtain i where "i < length ys - k" "y = ys ! (k + i)"
      by (auto simp: in_set_conv_nth)
    with k(3) show ?thesis by auto
  qed
  have st: "sorted (map createdAt (take k ys))" and sd: "sorted (map createdAt (drop k ys))"
    using assms by (simp_all add: take_map [symmetric] drop_map [symmetric] sorted_wrt_take
        sorted_wrt_drop)
  have cross: "createdAt a \<le> createdAt b" if "a \<in> set (take k ys)" "b \<in> set (drop k ys)" for a b
    using below [OF that(1)] above [OF that(2)] by (rule order_trans)
  have "sorted (map createdAt (take k ys @ pivot # drop k ys))"
    using st sd below above cross by (auto simp: sorted_append)
  then show ?thesis by (simp add: binary_insert_def k_def Let_def)
qed

lemma sorted_foldl_binary_insert:
  "sorted (map createdAt run) \<Longrightarrow>
     sorted (map createdAt (foldl (binary_insert compareCreatedAt) run rest))"
  by (induction rest arbitrary: run) (simp_all add: sorted_binary_insert)

lemma sorted_v8_sort_short: "sorted (map createdAt (v8_sort_short compareCreatedAt xs))"
proof -
  obtain run rest where r: "count_and_make_run compareCreatedAt xs = (run, rest)"
    by (cases "count_and_make_run compareCreatedAt xs")
  with sorted_count_and_make_run [of xs] have "sorted (map createdAt run)" by simp
  then show ?thesis by (simp add: v8_sort_short_def r sorted_foldl_binary_insert)
qed

lemma commentsForVideo_v8_sorted:
  "mset (commentsForVideo v8_sort_short cs v) = mset (filter (\<lambda>c. videoId c = v) cs) \<and>
   sorted (map createdAt (commentsForVideo v8_sort_short cs v))"
  by (simp add: commentsForVideo_def mset_v8_sort_short sorted_v8_sort_short)

section \<open>Username: properties\<close>

lemma split_at_head_spec:
  "\<exists>rest. e = split_at_head e @ rest \<and> CHR ''@'' \<notin> set (split_at_head e) \<and>
          (rest = [] \<or> hd rest = CHR ''@'')"
proof -
  let ?P = "\<lambda>c. c \<noteq> CHR ''@''"
  have a: "e = split_at_head e @ dropWhile ?P e" by (simp add: split_at_head_def)
  have b: "CHR ''@'' \<notin> set (split_at_head e)"
    using set_takeWhileD [of "CHR ''@''" ?P e] by (auto simp: split_at_head_def)
  have c: "dropWhile ?P e = [] \<or> hd (dropWhile ?P e) = CHR ''@''"
    using hd_dropWhile [of ?P e] by auto
  from a b c show ?thesis by blast
qed

text \<open>
  An email that begins with \<^verbatim>\<open>@\<close>: nothing stands before the \<^verbatim>\<open>@\<close>, and the username
  is the whole email.
\<close>

theorem session_username_counterexample:
  "session_username
     \<lparr>user_id = ''user-2'', user_email = Some ''@example.com'', user_metadata = None\<rparr>
     = ''@example.com'' \<and>
   split_at_head ''@example.com'' = [] \<and>
   session_username
     \<lparr>user_id = ''user-2'', user_email = Some ''@example.com'', user_metadata = None\<rparr>
     \<noteq> split_at_head ''@example.com''"
  by (simp add: session_username_def deriveUsername_def split_at_head_def)

text \<open>
  Claim C8, as amended. The username of a session is the metadata's \<^verbatim>\<open>username\<close> when
  that is present and not empty. Otherwise, with an email that is present and not empty,
  it is what stands before the first \<^verbatim>\<open>@\<close> of the email when that is not empty, and
  the whole email when it is. Otherwise it is \<^verbatim>\<open>mystery-creature\<close>.
\<close>

theorem session_username_cases:
  "(user_metadata u = Some md \<and> md ''username'' = Some n \<and> n \<noteq> [] \<longrightarrow>
      session_username u = n) \<and>
   ((user_metadata u = None \<or>
     (\<exists>d. user_metadata u = Some d \<and> (d ''username'' = None \<or> d ''username'' = Some []))) \<longrightarrow>
      (user_email u = Some e \<and> e \<noteq> [] \<longrightarrow>
         session_username u = (if split_at_head e \<noteq> [] then split_at_head e else e)) \<and>
      (user_email u = None \<or> user_email u = Some [] \<longrightarrow>
         session_username u = ''mystery-creature'')) \<and>
   (\<exists>rest. e = split_at_head e @ rest \<and> CHR ''@'' \<notin> set (split_at_head e) \<and>
           (rest = [] \<or> hd rest = CHR ''@''))"
proof -
  have named: "session_username u = n"
    if "user_metadata u = Some md" "md ''username'' = Some n" "n \<noteq> []"
    using that by (simp add: session_username_def)
  have derived: "session_username u = deriveUsername (user_email u)"
    if "user_metadata u = None \<or>
      (\<exists>d. user_metadata u = Some d \<and> (d ''username'' = None \<or> d ''username'' = Some []))"
    using that by (auto simp: session_username_def)
  have mail: "deriveUsername (Some e) = (if split_at_head e \<noteq> [] then split_at_head e else e)"
    if "e \<noteq> []"
    using that by (simp add: deriveUsername_def Let_def)
  have nomail: "deriveUsername None = ''mystery-creature''"
    "deriveUsername (Some []) = ''mystery-creature''"
    by (simp_all add: deriveUsername_def)
  from named derived mail nomail split_at_head_spec [of e] show ?thesis
    by (metis (no_types, lifting))
qed

text \<open>
  A session with a metadata username, one with an email only, one whose email begins with
  \<^verbatim>\<open>@\<close>, and one with neither.
\<close>

theorem session_username_cases_witness:
  "session_username \<lparr>user_id = ''user-3'', user_email = Some ''neo@example.com'',
     user_metadata = Some [''username'' \<mapsto> ''the-one'']\<rparr> = ''the-one'' \<and>
   session_username alice = ''alice'' \<and>
   session_username \<lparr>user_id = ''user-2'', user_email = Some ''@example.com'',
     user_metadata = Some Map.empty\<rparr> = ''@example.com'' \<and>
   session_username \<lparr>user_id = ''user-4'', user_email = None, user_metadata = None\<rparr>
     = ''mystery-creature''"
proof -
  have a: "split_at_head ''alice@example.com'' = ''alice''"
    and b: "split_at_head ''@example.com'' = []"
    by (simp_all add: split_at_head_def)
  from
    session_username_cases [of "\<lparr>user_id = ''user-3'', user_email = Some ''neo@example.com'',
      user_metadata = Some [''username'' \<mapsto> ''the-one'']\<rparr>" "[''username'' \<mapsto> ''the-one'']"
      "''the-one''" "''neo@example.com''"]
    session_username_cases [of alice Map.empty "''x''" "''alice@example.com''"]
    session_username_cases [of "\<lparr>user_id = ''user-2'', user_email = Some ''@example.com'',
      user_metadata = Some Map.empty\<rparr>" Map.empty "''x''" "''@example.com''"]
    session_username_cases [of "\<lparr>user_id = ''user-4'', user_email = None, user_metadata = None\<rparr>"
      Map.empty "''x''" "''x''"]
    a b
  show ?thesis by (simp add: alice_def)
qed

section \<open>JSON: properties\<close>

subsection \<open>digits\<close>














subsection \<open>strings\<close>






subsection \<open>values\<close>




























section \<open>The persistent store: properties\<close>

















section \<open>Likes across sessions\<close>
















end
